theory Spec2Isabelle
  imports Complex_Main "HOL-Library.Signed_Division"
begin

section \<open>Errors of package transport\<close>

text \<open>
  Go errors are values.  Each constructor stands for one way the source builds an error:
  the sentinel variables, the constructor functions that wrap a sentinel with a field
  name, the two wrappers, and \<open>fmt.Errorf\<close> with a message and a wrapped cause.
  \<open>External\<close> is an error returned by a collaborator outside the package (the web
  client, a repository driver, the URL library).
\<close>

datatype err =
    MissingConfigFieldError string
  | MissingRateLimitFieldError string
  | MissingTimeseriesFieldError string
  | UnableToParseError string
  | ErrInvalidRateLimit
  | ErrSettingTimeseriesChunks
  | ErrFetchingTimeseriesChunks
  | WrapWebError err
  | WrapRepositoryError err
  | FailedToCreateClientError err
  | FailedToCreateRepositoryError err
  | Errorf string err
  | External string

section \<open>Time\<close>

text \<open>
  An instant (\<open>time.Time\<close>) is its number of nanoseconds on the time line, a
  \<open>time.Duration\<close> is a number of nanoseconds.  \<open>Before\<close> is \<open><\<close> and \<open>Add\<close> is
  \<open>+\<close>.  Parsed instants lie between the years 0 and 9999 and a period is an int32
  number of seconds, so none of the sums below leaves the range of the Go types.
\<close>

type_synonym Time = int
type_synonym Duration = int

definition Second :: Duration where
  "Second = 1000000000"

definition RFC3339 :: string where
  "RFC3339 = ''2006-01-02T15:04:05Z07:00''"

section \<open>The timeseries planner\<close>

record timeseries =
  StartName :: string
  EndName :: string
  Period :: int
  Layout :: "string option"
  chunks :: "(Time \<times> Time) list"

text \<open>
  A parsed URL.  The query string \<open>RawQuery\<close> is held as the values that
  \<open>url.Query()\<close> parses from it: for each name the list of its values, empty for a
  name that does not occur.  \<open>Location\<close> is the rest of the URL.
\<close>

record URL =
  Location :: string
  RawQuery :: "string \<Rightarrow> string list"

text \<open>
  The loop of \<open>setChunks\<close>.  It appends to the chunks the timeseries already holds.
  With a period that is not positive and \<open>start\<close> before \<open>end\<close> the loop never
  ends: the result is then \<open>None\<close>.
\<close>

partial_function (option) chunkLoop ::
  "int \<Rightarrow> Time \<Rightarrow> Time \<Rightarrow> (Time \<times> Time) list \<Rightarrow> (Time \<times> Time) list option" where
  "chunkLoop period start endT cs =
     (if start < endT then
        (let next = start + Second * period in
         if next < endT then chunkLoop period next endT (cs @ [(start, next)])
         else chunkLoop period next endT (cs @ [(start, endT)]))
      else Some cs)"

declare chunkLoop.simps [code]

text \<open>
  \<open>setChunks\<close> returns an error (or nil) and mutates the timeseries: the model returns
  both.  \<open>parse layout value\<close> stands for \<open>time.Parse\<close>.
\<close>

definition layoutOf :: "timeseries \<Rightarrow> string" where
  "layoutOf ts = (case Layout ts of None \<Rightarrow> RFC3339 | Some l \<Rightarrow> l)"

definition setChunks ::
  "(string \<Rightarrow> string \<Rightarrow> Time option) \<Rightarrow> timeseries \<Rightarrow> URL
     \<Rightarrow> (err option \<times> timeseries) option" where
  "setChunks parse ts0 url =
     (let ts = (case Layout ts0 of None \<Rightarrow> ts0\<lparr>Layout := Some RFC3339\<rparr> | Some l \<Rightarrow> ts0);
          query = RawQuery url;
          startSlice = query (StartName ts)
      in case startSlice of
           [sv] \<Rightarrow>
             (case parse (layoutOf ts) sv of
                None \<Rightarrow> Some (Some (UnableToParseError ''startTime''), ts)
              | Some start \<Rightarrow>
                  (let endSlice = query (EndName ts)
                   in case endSlice of
                        [ev] \<Rightarrow>
                          (case parse (layoutOf ts) ev of
                             None \<Rightarrow> Some (Some (UnableToParseError ''endTime''), ts)
                           | Some endT \<Rightarrow>
                               map_option (\<lambda>cs. (None, ts\<lparr>chunks := cs\<rparr>))
                                 (chunkLoop (timeseries.Period ts) start endT (chunks ts)))
                      | _ \<Rightarrow> Some (Some (MissingTimeseriesFieldError ''endName''), ts)))
         | _ \<Rightarrow> Some (Some (MissingTimeseriesFieldError ''startName''), ts))"

text \<open>
  The reference recurrence, in the words of the specification: walk a cursor from
  \<open>start\<close>; while the cursor is before \<open>end\<close> emit the pair of the cursor and the
  minimum of cursor plus period and \<open>end\<close>, and advance the cursor by the period, the
  period being a number of seconds.
\<close>

partial_function (option) walk ::
  "int \<Rightarrow> Time \<Rightarrow> Time \<Rightarrow> (Time \<times> Time) list option" where
  "walk period cursor endT =
     (if cursor < endT then
        Option.bind (walk period (cursor + Second * period) endT)
          (\<lambda>rest. Some ((cursor, min (cursor + Second * period) endT) # rest))
      else Some [])"

declare walk.simps [code]

text \<open>The same sequence as a total function, for a positive step.\<close>

function chunksFrom :: "Duration \<Rightarrow> Time \<Rightarrow> Time \<Rightarrow> (Time \<times> Time) list" where
  "chunksFrom d s e =
     (if 0 < d \<and> s < e then (s, min (s + d) e) # chunksFrom d (s + d) e else [])"
  by pat_completeness auto
termination
  by (relation "measure (\<lambda>(d, s, e). nat (e - s))") auto

declare chunksFrom.simps [simp del]

section \<open>Configuration\<close>

record APIKey =
  Passphrase :: string
  Key :: string
  Secret :: string

record Auth2 =
  Bearer :: string

record Authentication =
  APIKey :: "APIKey option"
  Auth2 :: "Auth2 option"

text \<open>
  Requests, query maps and timeseries are reached through pointers and are mutated by
  \<open>Upsert\<close>, so they live in a store and are named by addresses.  A Go map is a
  reference: the \<open>Query\<close> of a request is the address of its map, or nil.
\<close>

type_synonym addr = nat

record Request =
  Method :: string
  Endpoint :: string
  RateLimitBurstCap :: int
  Query :: "addr option"
  Timeseries :: "addr option"
  Table :: "string option"

record RateLimitConfig =
  Burst :: "int option"
  Period :: "Duration option"

record Config =
  URL :: string
  Authentication :: Authentication
  DNSList :: "string list"
  Requests :: "addr option list"
  RateLimitConfig :: "RateLimitConfig option"
  Truncate :: bool

record store =
  requests :: "addr \<Rightarrow> Request"
  queries :: "addr \<Rightarrow> (string \<rightharpoonup> string)"
  series :: "addr \<Rightarrow> timeseries"

definition rateLimitValidate :: "RateLimitConfig \<Rightarrow> err option" where
  "rateLimitValidate rl =
     (if Burst rl = None then Some (MissingRateLimitFieldError ''burst'')
      else if RateLimitConfig.Period rl = None then Some (MissingRateLimitFieldError ''period'')
      else None)"

definition validate :: "Config \<Rightarrow> err option" where
  "validate cfg =
     (case RateLimitConfig cfg of
        None \<Rightarrow> Some (MissingConfigFieldError ''rateLimit'')
      | Some rl \<Rightarrow>
          (case rateLimitValidate rl of
             Some e \<Rightarrow> Some ErrInvalidRateLimit
           | None \<Rightarrow> None))"

section \<open>The rate limiter\<close>

text \<open>
  \<open>Every\<close> and \<open>NewLimiter\<close> belong to the rate library.  \<open>Every\<close> turns a
  minimum interval between events into a limit; an interval that is not positive gives
  the infinite limit.  For a positive interval the library computes the floating-point
  number of events per second; that number is not computed here: the limit is kept as the
  interval it was made from, \<open>OnePer d\<close> being one event per \<open>d\<close>.  Limits made from
  the same interval are the same number.
\<close>

datatype Limit = Inf | OnePer Duration

record Limiter =
  limit :: Limit
  burst :: int

definition Every :: "Duration \<Rightarrow> Limit" where
  "Every interval = (if interval \<le> 0 then Inf else OnePer interval)"

definition NewLimiter :: "Limit \<Rightarrow> int \<Rightarrow> Limiter" where
  "NewLimiter r b = \<lparr>limit = r, burst = b\<rparr>"

text \<open>
  The two statements of \<open>Upsert\<close> that build the limiter.  The division of two
  durations is Go's integer division, which truncates.
\<close>

definition newRateLimiter :: "Duration \<Rightarrow> int \<Rightarrow> Limiter" where
  "newRateLimiter period b =
     (let rateLimitPeriodS = period sdiv Second
      in NewLimiter (Every rateLimitPeriodS) b)"

section \<open>Collaborators\<close>

datatype signer =
    APIKeySigner string string string string
  | Auth2Signer string string

text \<open>A repository: its position in the DNS list and its DNS.\<close>

type_synonym repo = "nat \<times> string"

record FetchConfig =
  C :: "signer option"
  Method :: string
  URL :: URL
  RateLimiter :: Limiter

record flattenedRequest =
  fetchConfig :: FetchConfig
  table :: "string option"

text \<open>
  What \<open>Upsert\<close> calls outside the package, each call with the result it gives:
  the URL library, the time library, the constructor of the web client (its argument the
  signer: URL, key, passphrase and secret, or bearer and URL), and the repository
  (\<open>NewTx\<close>, \<open>Truncate\<close>, \<open>Commit\<close>).  \<open>Pipeline\<close> tells whether the worker
  pools deliver one completion for every flattened request; they do not when a worker
  ends the process on an error.
\<close>

record env =
  JoinPath :: "string \<Rightarrow> string \<Rightarrow> err + string"
  ParseURL :: "string \<Rightarrow> err + URL"
  ParseTime :: "string \<Rightarrow> string \<Rightarrow> Time option"
  FormatTime :: "string \<Rightarrow> Time \<Rightarrow> string"
  NewClient :: "signer \<Rightarrow> err option"
  NewTx :: "repo \<Rightarrow> err option"
  TruncateTx :: "repo \<Rightarrow> string list \<Rightarrow> err option"
  Pipeline :: "flattenedRequest list \<Rightarrow> repo list \<Rightarrow> bool"
  CommitTx :: "repo \<Rightarrow> err option"

text \<open>The calls \<open>Upsert\<close> makes, in the order it makes them.\<close>

datatype event =
    EvNewClient signer
  | EvNewTx repo
  | EvTruncate repo "string list"
  | EvStartRepositoryWorkers
  | EvStartWebWorkers
  | EvEnqueue flattenedRequest
  | EvCommit repo
  | EvRollback repo

text \<open>
  How a call ends: it returns, it panics, or it does not return (an endless loop, or the
  end of the process).
\<close>

datatype 'a outcome = Returned 'a | Panicked string | NoReturn

section \<open>connect and repos\<close>

definition connect :: "env \<Rightarrow> Config \<Rightarrow> (err + signer option) \<times> event list" where
  "connect env cfg =
     (case APIKey (Authentication cfg) of
        Some apiKey \<Rightarrow>
          (let sg = APIKeySigner (Config.URL cfg) (Key apiKey) (Passphrase apiKey) (Secret apiKey)
           in case NewClient env sg of
                Some e \<Rightarrow> (Inl (WrapWebError (FailedToCreateClientError e)), [EvNewClient sg])
              | None \<Rightarrow> (Inr (Some sg), [EvNewClient sg]))
      | None \<Rightarrow>
          (case Auth2 (Authentication cfg) of
             Some apiKey \<Rightarrow>
               (let sg = Auth2Signer (Bearer apiKey) (Config.URL cfg)
                in case NewClient env sg of
                     Some e \<Rightarrow> (Inl (WrapWebError (FailedToCreateClientError e)), [EvNewClient sg])
                   | None \<Rightarrow> (Inr (Some sg), [EvNewClient sg]))
           | None \<Rightarrow> (Inr None, [])))"

fun reposLoop :: "env \<Rightarrow> nat \<Rightarrow> string list \<Rightarrow> repo list \<Rightarrow> (err + repo list) \<times> event list" where
  "reposLoop env i [] rs = (Inr rs, [])"
| "reposLoop env i (dns # rest) rs =
     (case NewTx env (i, dns) of
        Some e \<Rightarrow> (Inl (WrapRepositoryError (FailedToCreateRepositoryError e)), [EvNewTx (i, dns)])
      | None \<Rightarrow>
          (case reposLoop env (Suc i) rest (rs @ [(i, dns)]) of
             (r, evs) \<Rightarrow> (r, EvNewTx (i, dns) # evs)))"

definition repos :: "env \<Rightarrow> Config \<Rightarrow> (err + repo list) \<times> event list" where
  "repos env cfg = reposLoop env 0 (DNSList cfg) []"

section \<open>newFetchConfig\<close>

text \<open>\<open>query.Set\<close> for every entry of the request's map: the entries of the map win.\<close>

definition overlay :: "(string \<rightharpoonup> string) \<Rightarrow> (string \<Rightarrow> string list) \<Rightarrow> string \<Rightarrow> string list" where
  "overlay m vals = (\<lambda>n. case m n of Some v \<Rightarrow> [v] | None \<Rightarrow> vals n)"

definition newFetchConfig ::
  "env \<Rightarrow> Config \<Rightarrow> store \<Rightarrow> addr \<Rightarrow> signer option \<Rightarrow> Limiter \<Rightarrow> err + FetchConfig" where
  "newFetchConfig env cfg st a client rateLimiter =
     (let req = requests st a
      in case JoinPath env (Config.URL cfg) (Endpoint req) of
           Inl e \<Rightarrow> Inl (Errorf ''error joining url'' e)
         | Inr rawURL \<Rightarrow>
             (case ParseURL env rawURL of
                Inl e \<Rightarrow> Inl (Errorf ''error parsing raw url'' e)
              | Inr uri \<Rightarrow>
                  (let uri' = (case Query req of
                                 None \<Rightarrow> uri
                               | Some qa \<Rightarrow> uri\<lparr>RawQuery := overlay (queries st qa) (RawQuery uri)\<rparr>)
                   in Inr \<lparr>C = client, Method = Request.Method req, URL = uri',
                           RateLimiter = rateLimiter\<rparr>)))"

section \<open>Planning\<close>

text \<open>
  The loop over the chunks of a timeseries.  \<open>chunkReq := req\<close> copies the pointer, so
  the writes go to the map of the request itself; a write to a nil map panics.
\<close>

definition setQuery :: "store \<Rightarrow> addr \<Rightarrow> string \<Rightarrow> string \<Rightarrow> store" where
  "setQuery st qa name v = st\<lparr>queries := (queries st)(qa := (queries st qa)(name \<mapsto> v))\<rparr>"

fun chunkRequests ::
  "env \<Rightarrow> Config \<Rightarrow> addr \<Rightarrow> addr \<Rightarrow> signer option \<Rightarrow> Limiter \<Rightarrow> (Time \<times> Time) list
     \<Rightarrow> store \<Rightarrow> flattenedRequest list
     \<Rightarrow> err option outcome \<times> store \<times> flattenedRequest list" where
  "chunkRequests env cfg req tsa client rateLimiter [] st fl = (Returned None, st, fl)"
| "chunkRequests env cfg req tsa client rateLimiter (chunk # rest) st fl =
     (let chunkReq = req;
          ts = series st tsa
      in case Query (requests st chunkReq) of
           None \<Rightarrow> (Panicked ''assignment to entry in nil map'', st, fl)
         | Some qa \<Rightarrow>
             (let st1 = setQuery st qa (StartName ts) (FormatTime env (layoutOf ts) (fst chunk));
                  st2 = setQuery st1 qa (EndName ts) (FormatTime env (layoutOf ts) (snd chunk))
              in case newFetchConfig env cfg st2 chunkReq client rateLimiter of
                   Inl e \<Rightarrow> (Returned (Some ErrFetchingTimeseriesChunks), st2, fl)
                 | Inr chunkedFetchConfig \<Rightarrow>
                     chunkRequests env cfg req tsa client rateLimiter rest st2
                       (fl @ [\<lparr>fetchConfig = chunkedFetchConfig,
                               table = Table (requests st2 req)\<rparr>])))"

text \<open>
  One round of the loop over the requests.  \<open>Returned None\<close> means that the round
  ended without leaving \<open>Upsert\<close>.
\<close>

definition defaultMethod :: "store \<Rightarrow> addr \<Rightarrow> store" where
  "defaultMethod st req =
     (if Request.Method (requests st req) = []
      then st\<lparr>requests := (requests st)(req := (requests st req)\<lparr>Request.Method := ''GET''\<rparr>)\<rparr>
      else st)"

definition addTable :: "store \<Rightarrow> addr \<Rightarrow> string list \<Rightarrow> string list" where
  "addTable st req tables =
     (case Table (requests st req) of Some t \<Rightarrow> tables @ [t] | None \<Rightarrow> tables)"

definition planRequest ::
  "env \<Rightarrow> Config \<Rightarrow> signer option \<Rightarrow> Limiter \<Rightarrow> addr option
     \<Rightarrow> store \<Rightarrow> flattenedRequest list \<Rightarrow> string list
     \<Rightarrow> err option outcome \<times> store \<times> flattenedRequest list \<times> string list" where
  "planRequest env cfg client rateLimiter reqp st fl tables =
     (case reqp of
        None \<Rightarrow> (Panicked ''nil pointer dereference'', st, fl, tables)
      | Some req \<Rightarrow>
          (let st1 = defaultMethod st req
           in case newFetchConfig env cfg st1 req client rateLimiter of
                Inl e \<Rightarrow> (Returned (Some e), st1, fl, tables)
              | Inr fc \<Rightarrow>
                  (case Timeseries (requests st1 req) of
                     Some tsa \<Rightarrow>
                       (case setChunks (ParseTime env) (series st1 tsa) (FetchConfig.URL fc) of
                          None \<Rightarrow> (NoReturn, st1, fl, tables)
                        | Some (Some e, ts') \<Rightarrow>
                            (Returned (Some ErrSettingTimeseriesChunks),
                             st1\<lparr>series := (series st1)(tsa := ts')\<rparr>, fl, tables)
                        | Some (None, ts') \<Rightarrow>
                            (let st2 = st1\<lparr>series := (series st1)(tsa := ts')\<rparr>
                             in case chunkRequests env cfg req tsa client rateLimiter
                                       (chunks ts') st2 fl of
                                  (Returned None, st3, fl3) \<Rightarrow>
                                    (Returned None, st3, fl3, addTable st3 req tables)
                                | (oc, st3, fl3) \<Rightarrow> (oc, st3, fl3, tables)))
                   | None \<Rightarrow>
                       (Returned None, st1,
                        fl @ [\<lparr>fetchConfig = fc, table = Table (requests st1 req)\<rparr>],
                        addTable st1 req tables))))"

fun planRequests ::
  "env \<Rightarrow> Config \<Rightarrow> signer option \<Rightarrow> Limiter \<Rightarrow> addr option list
     \<Rightarrow> store \<Rightarrow> flattenedRequest list \<Rightarrow> string list
     \<Rightarrow> err option outcome \<times> store \<times> flattenedRequest list \<times> string list" where
  "planRequests env cfg client rateLimiter [] st fl tables = (Returned None, st, fl, tables)"
| "planRequests env cfg client rateLimiter (reqp # rest) st fl tables =
     (case planRequest env cfg client rateLimiter reqp st fl tables of
        (Returned None, st', fl', tables') \<Rightarrow>
          planRequests env cfg client rateLimiter rest st' fl' tables'
      | r \<Rightarrow> r)"

section \<open>Truncate and commit\<close>

fun truncateAll :: "env \<Rightarrow> repo list \<Rightarrow> string list \<Rightarrow> err option \<times> event list" where
  "truncateAll env [] tables = (None, [])"
| "truncateAll env (r # rs) tables =
     (case TruncateTx env r tables of
        Some e \<Rightarrow> (Some e, [EvTruncate r tables])
      | None \<Rightarrow>
          (case truncateAll env rs tables of
             (res, evs) \<Rightarrow> (res, EvTruncate r tables # evs)))"

fun commitAll :: "env \<Rightarrow> repo list \<Rightarrow> err option \<times> event list" where
  "commitAll env [] = (None, [])"
| "commitAll env (r # rs) =
     (case CommitTx env r of
        Some e \<Rightarrow> (Some e, [EvCommit r])
      | None \<Rightarrow>
          (case commitAll env rs of
             (res, evs) \<Rightarrow> (res, EvCommit r # evs)))"

section \<open>Upsert\<close>

text \<open>
  The part of \<open>Upsert\<close> after planning: truncation, the start of the worker pools,
  the jobs, the wait for one completion per flattened request, the commits.
\<close>

definition runPipeline ::
  "env \<Rightarrow> Config \<Rightarrow> repo list \<Rightarrow> flattenedRequest list \<Rightarrow> string list
     \<Rightarrow> err option outcome \<times> event list" where
  "runPipeline env cfg rs fl tables =
     (case (if Truncate cfg then truncateAll env rs tables else (None, [])) of
        (Some e, evs3) \<Rightarrow> (Returned (Some (Errorf ''unable to truncate tables'' e)), evs3)
      | (None, evs3) \<Rightarrow>
          (let evs4 = [EvStartRepositoryWorkers, EvStartWebWorkers] @ map EvEnqueue fl
           in if fl \<noteq> [] \<and> \<not> Pipeline env fl rs then (NoReturn, evs3 @ evs4)
              else (case commitAll env rs of
                      (Some e, evs5) \<Rightarrow>
                        (Returned (Some (Errorf ''unable to commit transaction'' e)),
                         evs3 @ evs4 @ evs5)
                    | (None, evs5) \<Rightarrow> (Returned None, evs3 @ evs4 @ evs5))))"

definition Upsert :: "env \<Rightarrow> Config \<Rightarrow> store \<Rightarrow> err option outcome \<times> store \<times> event list" where
  "Upsert env cfg st =
     (case validate cfg of
        Some e \<Rightarrow> (Returned (Some e), st, [])
      | None \<Rightarrow>
          (case connect env cfg of
             (Inl e, evs1) \<Rightarrow>
               (Returned (Some (Errorf ''unable to connect to client'' e)), st, evs1)
           | (Inr client, evs1) \<Rightarrow>
               (case repos env cfg of
                  (Inl e, evs2) \<Rightarrow> (Returned (Some e), st, evs1 @ evs2)
                | (Inr rs, evs2) \<Rightarrow>
                    (case RateLimitConfig cfg of
                       None \<Rightarrow> (Panicked ''nil pointer dereference'', st, evs1 @ evs2)
                     | Some rl \<Rightarrow>
                         (case (RateLimitConfig.Period rl, Burst rl) of
                            (Some period, Some b) \<Rightarrow>
                              (let rateLimiter = newRateLimiter period b
                               in case planRequests env cfg client rateLimiter (Requests cfg)
                                         st [] [] of
                                    (Returned None, st', fl, tables) \<Rightarrow>
                                      (case runPipeline env cfg rs fl tables of
                                         (oc, evs) \<Rightarrow> (oc, st', evs1 @ evs2 @ evs))
                                  | (oc, st', fl, tables) \<Rightarrow> (oc, st', evs1 @ evs2))
                          | _ \<Rightarrow> (Panicked ''nil pointer dereference'', st, evs1 @ evs2))))))"

section \<open>Reading a run of Upsert\<close>

text \<open>The repositories of a configuration: its DNS list with positions.\<close>

definition backends :: "Config \<Rightarrow> repo list" where
  "backends cfg = zip [0 ..< length (DNSList cfg)] (DNSList cfg)"

text \<open>
  The list that the loop over the requests collects for truncation: the table of every
  request that has one, in the order of the requests.
\<close>

definition requestTables :: "store \<Rightarrow> addr option list \<Rightarrow> string list" where
  "requestTables st reqs =
     concat (map (\<lambda>reqp. case reqp of
                            None \<Rightarrow> []
                          | Some req \<Rightarrow> (case Table (requests st req) of
                                          None \<Rightarrow> []
                                        | Some t \<Rightarrow> [t])) reqs)"

fun isTruncate :: "event \<Rightarrow> bool" where
  "isTruncate (EvTruncate r tables) = True"
| "isTruncate e = False"

fun isCommit :: "event \<Rightarrow> bool" where
  "isCommit (EvCommit r) = True"
| "isCommit e = False"

fun isRollback :: "event \<Rightarrow> bool" where
  "isRollback (EvRollback r) = True"
| "isRollback e = False"

fun isSetup :: "event \<Rightarrow> bool" where
  "isSetup (EvNewClient sg) = True"
| "isSetup (EvNewTx r) = True"
| "isSetup e = False"

text \<open>The limiters carried by the jobs of a run, in the order of the jobs.\<close>

fun enqueuedLimiters :: "event list \<Rightarrow> Limiter list" where
  "enqueuedLimiters [] = []"
| "enqueuedLimiters (EvEnqueue f # evs) = RateLimiter (fetchConfig f) # enqueuedLimiters evs"
| "enqueuedLimiters (e # evs) = enqueuedLimiters evs"

text \<open>
  The rate in the words of the specification: the burst divided by the period expressed
  in seconds, a number of tokens per second.
\<close>

definition specRate :: "Duration \<Rightarrow> int \<Rightarrow> rat" where
  "specRate period b = of_int b / (of_int period / 1000000000)"

text \<open>The truncations and the commits of a run, in their order.\<close>

fun truncations :: "event list \<Rightarrow> (repo \<times> string list) list" where
  "truncations [] = []"
| "truncations (EvTruncate r tables # evs) = (r, tables) # truncations evs"
| "truncations (e # evs) = truncations evs"

fun commits :: "event list \<Rightarrow> repo list" where
  "commits [] = []"
| "commits (EvCommit r # evs) = r # commits evs"
| "commits (e # evs) = commits evs"

text \<open>
  The query map of a request after the two writes of the chunk loop for one chunk, and
  the flattened request that the loop builds from it.
\<close>

definition chunkQuery ::
  "env \<Rightarrow> timeseries \<Rightarrow> (string \<rightharpoonup> string) \<Rightarrow> Time \<times> Time \<Rightarrow> (string \<rightharpoonup> string)" where
  "chunkQuery env ts m chunk =
     m(StartName ts \<mapsto> FormatTime env (layoutOf ts) (fst chunk),
       EndName ts \<mapsto> FormatTime env (layoutOf ts) (snd chunk))"

definition chunkFlattened ::
  "env \<Rightarrow> timeseries \<Rightarrow> (string \<rightharpoonup> string) \<Rightarrow> signer option \<Rightarrow> Limiter \<Rightarrow> Request \<Rightarrow> URL
     \<Rightarrow> Time \<times> Time \<Rightarrow> flattenedRequest" where
  "chunkFlattened env ts m client rateLimiter r uri chunk =
     \<lparr>fetchConfig =
        \<lparr>C = client, Method = Request.Method r,
         URL = uri\<lparr>RawQuery := overlay (chunkQuery env ts m chunk) (RawQuery uri)\<rparr>,
         RateLimiter = rateLimiter\<rparr>,
      table = Table r\<rparr>"

section \<open>Transactions (package storage)\<close>

text \<open>
  A Go channel: nil, or made with a capacity.  A made channel is open or closed and has a
  buffer.  Goroutines that cannot go on park on it, in the order of their arrival:
  \<open>sendq\<close> holds the values of the senders parked now and \<open>taken\<close> counts the parked
  senders whose value a receiver has taken since the channel was made, so the sender that
  parks next has the number \<open>taken + length sendq\<close>; \<open>parked\<close> counts the receivers that
  have ever parked and \<open>handed\<close> lists what the first of them were given, in their order:
  \<open>Some v\<close> by a sender, \<open>None\<close> (the zero value) by the close of the channel.  The
  receivers parked now are those with a number from \<open>length handed\<close> up to \<open>parked\<close>.
\<close>

datatype 'a chan =
    NilChan
  | Chan (closed: bool) (cap: nat) (buf: "'a list") (sendq: "'a list") (taken: nat)
         (parked: nat) (handed: "'a option list")

fun isClosed :: "'a chan \<Rightarrow> bool" where
  "isClosed NilChan = False"
| "isClosed (Chan c n b sq tk p h) = c"

fun isOpen :: "'a chan \<Rightarrow> bool" where
  "isOpen NilChan = False"
| "isOpen (Chan c n b sq tk p h) = (\<not> c)"

text \<open>
  How far a goroutine gets: it finishes with a result, it panics, it parks in a send or
  in a receive (with its number among the senders or the receivers of the channel), or it
  parks for ever on a nil channel.
\<close>

datatype 'r progress =
    Finished 'r
  | Panic string
  | ParkedInSend nat
  | ParkedInRecv nat
  | ParkedForever

text \<open>
  \<open>close(c)\<close>: a panic on a nil or a closed channel.  The close releases every parked
  goroutine: the receivers are given the zero value, the senders panic and their values
  are never sent.  The buffer stays.
\<close>

fun chanClose :: "'a chan \<Rightarrow> string + 'a chan" where
  "chanClose NilChan = Inl ''close of nil channel''"
| "chanClose (Chan c n b sq tk p h) =
     (if c then Inl ''close of closed channel''
      else Inr (Chan True n b [] tk p (h @ replicate (p - length h) None)))"

text \<open>
  \<open>c <- v\<close>: for ever parked on a nil channel, a panic on a closed one; the value goes
  to the first parked receiver if there is one, else into the buffer if it has room, else
  the sender parks with it.
\<close>

fun chanSend :: "'a chan \<Rightarrow> 'a \<Rightarrow> 'a chan progress" where
  "chanSend NilChan v = ParkedForever"
| "chanSend (Chan c n b sq tk p h) v =
     (if c then Panic ''send on closed channel''
      else if length h < p then Finished (Chan c n b sq tk p (h @ [Some v]))
      else if length b < n then Finished (Chan c n (b @ [v]) sq tk p h)
      else ParkedInSend (tk + length sq))"

text \<open>The channel on which a sender has parked with its value.\<close>

fun chanPark :: "'a chan \<Rightarrow> 'a \<Rightarrow> 'a chan" where
  "chanPark NilChan v = NilChan"
| "chanPark (Chan c n b sq tk p h) v = Chan c n b (sq @ [v]) tk p h"

text \<open>
  A sender that parked with the number \<open>t\<close>, looked at again: its send is through once
  a receiver has taken its value; it panics when the channel was closed before that.
\<close>

fun sendResumed :: "'a chan \<Rightarrow> nat \<Rightarrow> unit progress" where
  "sendResumed NilChan t = ParkedForever"
| "sendResumed (Chan c n b sq tk p h) t =
     (if t < tk then Finished ()
      else if c then Panic ''send on closed channel''
      else ParkedInSend t)"

text \<open>
  \<open><-c\<close>: for ever parked on a nil channel; the first buffered value (the first parked
  sender then moves its value into the buffer), else the value of the first parked
  sender, else the zero value when the channel is closed, else the receiver parks.
\<close>

fun chanRecv :: "'a chan \<Rightarrow> 'a \<Rightarrow> ('a \<times> 'a chan) progress" where
  "chanRecv NilChan zero = ParkedForever"
| "chanRecv (Chan c n (v # b) [] tk p h) zero = Finished (v, Chan c n b [] tk p h)"
| "chanRecv (Chan c n (v # b) (s # sq) tk p h) zero =
     Finished (v, Chan c n (b @ [s]) sq (Suc tk) p h)"
| "chanRecv (Chan c n [] (s # sq) tk p h) zero = Finished (s, Chan c n [] sq (Suc tk) p h)"
| "chanRecv (Chan c n [] [] tk p h) zero =
     (if c then Finished (zero, Chan c n [] [] tk p h) else ParkedInRecv p)"

text \<open>The channel on which one more receiver has parked.\<close>

fun chanWait :: "'a chan \<Rightarrow> 'a chan" where
  "chanWait NilChan = NilChan"
| "chanWait (Chan c n b sq tk p h) = Chan c n b sq tk (Suc p) h"

text \<open>
  A receiver that parked with the number \<open>t\<close>, looked at again: it has what it was
  given, the value of a sender or the zero value from the close.
\<close>

fun recvResumed :: "'a chan \<Rightarrow> 'a \<Rightarrow> nat \<Rightarrow> 'a progress" where
  "recvResumed NilChan zero t = ParkedForever"
| "recvResumed (Chan c n b sq tk p h) zero t =
     (if t < length h then Finished (case h ! t of Some v \<Rightarrow> v | None \<Rightarrow> zero)
      else ParkedInRecv t)"

text \<open>
  \<open>Txn\<close>.  The functions sent on \<open>ch\<close> are of any type \<open>'f\<close>; an error value is
  \<open>err option\<close>, nil being \<open>None\<close>.  The field \<open>done\<close> is named \<open>doneCh\<close>.
\<close>

record 'f Txn =
  ch :: "'f chan"
  doneCh :: "err option chan"
  commit :: "bool chan"

text \<open>\<open>return <-txn.done\<close>\<close>

definition awaitDone :: "'f Txn \<Rightarrow> err option progress \<times> 'f Txn" where
  "awaitDone txn =
     (case chanRecv (doneCh txn) None of
        Finished (e, c) \<Rightarrow> (Finished e, txn\<lparr>doneCh := c\<rparr>)
      | Panic msg \<Rightarrow> (Panic msg, txn)
      | ParkedInSend t \<Rightarrow> (ParkedInSend t, txn)
      | ParkedInRecv t \<Rightarrow> (ParkedInRecv t, txn\<lparr>doneCh := chanWait (doneCh txn)\<rparr>)
      | ParkedForever \<Rightarrow> (ParkedForever, txn))"

text \<open>\<open>txn.commit <- decision\<close> and the rest of the method\<close>

definition pushDecision :: "bool \<Rightarrow> 'f Txn \<Rightarrow> err option progress \<times> 'f Txn" where
  "pushDecision decision txn =
     (case chanSend (commit txn) decision of
        Finished c \<Rightarrow> awaitDone (txn\<lparr>commit := c\<rparr>)
      | Panic msg \<Rightarrow> (Panic msg, txn)
      | ParkedInSend t \<Rightarrow> (ParkedInSend t, txn\<lparr>commit := chanPark (commit txn) decision\<rparr>)
      | ParkedInRecv t \<Rightarrow> (ParkedInRecv t, txn)
      | ParkedForever \<Rightarrow> (ParkedForever, txn))"

definition finish :: "bool \<Rightarrow> 'f Txn \<Rightarrow> err option progress \<times> 'f Txn" where
  "finish decision txn =
     (case chanClose (ch txn) of
        Inl msg \<Rightarrow> (Panic msg, txn)
      | Inr c \<Rightarrow> pushDecision decision (txn\<lparr>ch := c\<rparr>))"

definition Commit :: "'f Txn \<Rightarrow> err option progress \<times> 'f Txn" where
  "Commit txn = finish True txn"

definition Rollback :: "'f Txn \<Rightarrow> err option progress \<times> 'f Txn" where
  "Rollback txn = finish False txn"

definition Send :: "'f Txn \<Rightarrow> 'f \<Rightarrow> unit progress \<times> 'f Txn" where
  "Send txn fn =
     (case chanSend (ch txn) fn of
        Finished c \<Rightarrow> (Finished (), txn\<lparr>ch := c\<rparr>)
      | Panic msg \<Rightarrow> (Panic msg, txn)
      | ParkedInSend t \<Rightarrow> (ParkedInSend t, txn\<lparr>ch := chanPark (ch txn) fn\<rparr>)
      | ParkedInRecv t \<Rightarrow> (ParkedInRecv t, txn)
      | ParkedForever \<Rightarrow> (ParkedForever, txn))"

text \<open>
  \<open>Commit\<close> and \<open>Rollback\<close> looked at again in a later state of the transaction.  A
  goroutine that parked in the send of the decision with the number \<open>t\<close> goes on with
  the receive once the driver has taken the decision, and panics when the commit channel
  was closed instead; one that parked in the receive with the number \<open>t\<close> returns what
  it was given on the done channel.
\<close>

definition afterSend :: "nat \<Rightarrow> 'f Txn \<Rightarrow> err option progress \<times> 'f Txn" where
  "afterSend t txn =
     (case sendResumed (commit txn) t of
        Finished u \<Rightarrow> awaitDone txn
      | Panic msg \<Rightarrow> (Panic msg, txn)
      | ParkedInSend t' \<Rightarrow> (ParkedInSend t', txn)
      | ParkedInRecv t' \<Rightarrow> (ParkedInRecv t', txn)
      | ParkedForever \<Rightarrow> (ParkedForever, txn))"

definition afterRecv :: "nat \<Rightarrow> 'f Txn \<Rightarrow> err option progress \<times> 'f Txn" where
  "afterRecv t txn = (recvResumed (doneCh txn) None t, txn)"

subsection \<open>Sample transactions\<close>

text \<open>
  A transaction whose driver has reported success already, one whose driver has reported
  a failure, and one whose driver is still at work: the submission channel is unbuffered
  with the driver waiting on it, the other two have one slot.
\<close>

definition reportedTxn :: "nat Txn" where
  "reportedTxn =
     \<lparr>ch = Chan False 0 [] [] 0 1 [],
      doneCh = Chan False 1 [None] [] 0 0 [],
      commit = Chan False 1 [] [] 0 0 []\<rparr>"

definition failedTxn :: "nat Txn" where
  "failedTxn = reportedTxn\<lparr>doneCh := Chan False 1 [Some (External ''driver failed'')] [] 0 0 []\<rparr>"

definition workingTxn :: "nat Txn" where
  "workingTxn = reportedTxn\<lparr>doneCh := Chan False 1 [] [] 0 0 []\<rparr>"

text \<open>
  A transaction whose commit channel is unbuffered and whose driver is busy: the decision
  cannot be handed over yet.
\<close>

definition busyTxn :: "nat Txn" where
  "busyTxn = failedTxn\<lparr>commit := Chan False 0 [] [] 0 0 []\<rparr>"

subsection \<open>Sample data for the planner\<close>

definition demoParse :: "string \<Rightarrow> string \<Rightarrow> Time option" where
  "demoParse layout v =
     (if layout = RFC3339 then
        map_of [(''2024-01-01T00:00:00Z'', 1704067200 * Second),
                (''2024-01-01T00:03:00Z'', 1704067380 * Second)] v
      else None)"

definition demoTimeseries :: timeseries where
  "demoTimeseries =
     \<lparr>StartName = ''start'', EndName = ''end'', timeseries.Period = 60, Layout = None, chunks = []\<rparr>"

definition demoQuery :: "(string \<times> string list) list \<Rightarrow> string \<Rightarrow> string list" where
  "demoQuery kvs name = (case map_of kvs name of None \<Rightarrow> [] | Some vs \<Rightarrow> vs)"

definition demoURL :: URL where
  "demoURL = \<lparr>Location = ''https://api.test/candles'',
              RawQuery = demoQuery [(''start'', [''2024-01-01T00:00:00Z'']),
                                 (''end'', [''2024-01-01T00:03:00Z''])]\<rparr>"

definition demoBadLayout :: timeseries where
  "demoBadLayout = demoTimeseries\<lparr>Layout := Some ''2006-01-02''\<rparr>"

definition demoReversedURL :: URL where
  "demoReversedURL = \<lparr>Location = ''https://api.test/candles'',
              RawQuery = demoQuery [(''start'', [''2024-01-01T00:03:00Z'']),
                                    (''end'', [''2024-01-01T00:00:00Z''])]\<rparr>"

subsection \<open>Sample data for the orchestrator\<close>

definition demoFormat :: "string \<Rightarrow> Time \<Rightarrow> string" where
  "demoFormat layout t =
     (if t = 1704067200 * Second then ''2024-01-01T00:00:00Z''
      else if t = 1704067260 * Second then ''2024-01-01T00:01:00Z''
      else if t = 1704067320 * Second then ''2024-01-01T00:02:00Z''
      else if t = 1704067380 * Second then ''2024-01-01T00:03:00Z''
      else [])"

definition demoEnv :: env where
  "demoEnv =
     \<lparr>JoinPath = (\<lambda>base endpoint. Inr (base @ endpoint)),
      ParseURL = (\<lambda>raw. Inr \<lparr>Location = raw, RawQuery = (\<lambda>name. [])\<rparr>),
      ParseTime = demoParse,
      FormatTime = demoFormat,
      NewClient = (\<lambda>sg. None),
      NewTx = (\<lambda>r. None),
      TruncateTx = (\<lambda>r tables. None),
      Pipeline = (\<lambda>fl rs. True),
      CommitTx = (\<lambda>r. None)\<rparr>"

definition demoRequest :: "string \<Rightarrow> string \<Rightarrow> Request" where
  "demoRequest endpoint t =
     \<lparr>Request.Method = ''GET'', Endpoint = endpoint, RateLimitBurstCap = 0,
      Query = None, Timeseries = None, Table = Some t\<rparr>"

definition demoCandles :: Request where
  "demoCandles =
     \<lparr>Request.Method = [], Endpoint = ''/candles'', RateLimitBurstCap = 0,
      Query = Some 0, Timeseries = Some 0, Table = Some ''candles''\<rparr>"

definition demoStore :: store where
  "demoStore =
     \<lparr>requests = (\<lambda>a. if a = 0 then demoCandles
                       else if a = 1 then demoRequest ''/v1/x'' ''x''
                       else demoRequest ''/v1/y'' ''x''),
      queries = (\<lambda>a. if a = 0 then [''start'' \<mapsto> ''2024-01-01T00:00:00Z'',
                                      ''end'' \<mapsto> ''2024-01-01T00:03:00Z'']
                      else Map.empty),
      series = (\<lambda>a. demoTimeseries)\<rparr>"

definition demoConfig :: Config where
  "demoConfig =
     \<lparr>Config.URL = ''https://api.test'',
      Authentication = \<lparr>APIKey = None, Auth2 = None\<rparr>,
      DNSList = [''mongodb://a'', ''postgresql://b''],
      Requests = [Some 1],
      RateLimitConfig = Some \<lparr>Burst = Some 10, RateLimitConfig.Period = Some Second\<rparr>,
      Truncate = False\<rparr>"

definition zeroRateConfig :: Config where
  "zeroRateConfig =
     demoConfig\<lparr>RateLimitConfig := Some \<lparr>Burst = Some 0, RateLimitConfig.Period = Some 0\<rparr>\<rparr>"

definition sharedTableConfig :: Config where
  "sharedTableConfig = demoConfig\<lparr>Requests := [Some 1, Some 2], Truncate := True\<rparr>"

definition failingCommitEnv :: env where
  "failingCommitEnv =
     demoEnv\<lparr>CommitTx := (\<lambda>r. if fst r = 1 then Some (External ''commit failed'') else None)\<rparr>"

definition demoFlattened :: "string \<Rightarrow> flattenedRequest" where
  "demoFlattened endpoint =
     \<lparr>fetchConfig =
        \<lparr>C = None, Method = ''GET'',
         URL = \<lparr>Location = ''https://api.test'' @ endpoint, RawQuery = (\<lambda>name. [])\<rparr>,
         RateLimiter = newRateLimiter Second 10\<rparr>,
      table = Some ''x''\<rparr>"

definition candlesConfig :: Config where
  "candlesConfig = demoConfig\<lparr>Requests := [Some 0]\<rparr>"

definition candlesURL :: URL where
  "candlesURL = \<lparr>Location = ''https://api.test/candles'', RawQuery = (\<lambda>name. [])\<rparr>"

definition candlesChunked :: timeseries where
  "candlesChunked =
     demoTimeseries\<lparr>Layout := Some RFC3339,
       chunks := [(1704067200 * Second, 1704067260 * Second),
                  (1704067260 * Second, 1704067320 * Second),
                  (1704067320 * Second, 1704067380 * Second)]\<rparr>"

definition burst20Config :: Config where
  "burst20Config =
     demoConfig\<lparr>RateLimitConfig := Some \<lparr>Burst = Some 20, RateLimitConfig.Period = Some Second\<rparr>\<rparr>"

definition firstCommitFailsEnv :: env where
  "firstCommitFailsEnv =
     demoEnv\<lparr>CommitTx := (\<lambda>r. if fst r = 0 then Some (External ''commit failed'') else None)\<rparr>"

section \<open>The timeseries planner: properties\<close>

lemma chunkLoop_chunksFrom:
  "0 < p \<Longrightarrow> chunkLoop p s e cs = Some (cs @ chunksFrom (Second * p) s e)"
proof (induction "Second * p" s e arbitrary: cs rule: chunksFrom.induct)
  case (1 s e)
  have d: "0 < Second * p" using 1(2) by (simp add: Second_def)
  show ?case
  proof (cases "s < e")
    case True
    have ih: "\<And>cs. chunkLoop p (s + Second * p) e cs = Some (cs @ chunksFrom (Second * p) (s + Second * p) e)"
      using 1(1) True d 1(2) by simp
    show ?thesis
      using True d
      by (subst chunkLoop.simps, subst chunksFrom.simps) (simp add: ih Let_def min_def)
  next
    case False
    then show ?thesis
      by (subst chunkLoop.simps, subst chunksFrom.simps) simp
  qed
qed

lemma walk_chunksFrom:
  "0 < p \<Longrightarrow> walk p s e = Some (chunksFrom (Second * p) s e)"
proof (induction "Second * p" s e rule: chunksFrom.induct)
  case (1 s e)
  have d: "0 < Second * p" using 1(2) by (simp add: Second_def)
  show ?case
  proof (cases "s < e")
    case True
    have ih: "walk p (s + Second * p) e = Some (chunksFrom (Second * p) (s + Second * p) e)"
      using 1(1) True d 1(2) by simp
    show ?thesis
      using True d
      by (subst walk.simps, subst chunksFrom.simps) (simp add: ih)
  next
    case False
    then show ?thesis
      by (subst walk.simps, subst chunksFrom.simps) simp
  qed
qed


lemma walk_imp_loop:
  "walk p s e = Some r \<Longrightarrow> chunkLoop p s e cs = Some (cs @ r)"
proof (induction arbitrary: cs rule: walk.raw_induct[rotated, consumes 1])
  case (1 walk' p s e r)
  show ?case
  proof (cases "s < e")
    case True
    with 1(2) obtain rest where w: "walk' p (s + Second * p) e = Some rest"
      and r: "r = (s, min (s + Second * p) e) # rest"
      by (auto simp: bind_eq_Some_conv)
    show ?thesis
    proof (cases "s + Second * p < e")
      case lt: True
      have "chunkLoop p (s + Second * p) e (cs @ [(s, s + Second * p)]) = Some ((cs @ [(s, s + Second * p)]) @ rest)"
        by (rule 1(1)[OF w])
      with True lt r show ?thesis
        by (subst chunkLoop.simps) (simp only: Let_def if_True min_def, simp)
    next
      case ge: False
      have "chunkLoop p (s + Second * p) e (cs @ [(s, e)]) = Some ((cs @ [(s, e)]) @ rest)"
        by (rule 1(1)[OF w])
      with True ge r show ?thesis
        by (subst chunkLoop.simps) (simp only: Let_def if_True if_False min_def, simp)
    qed
  next
    case False
    with 1(2) show ?thesis by (subst chunkLoop.simps) simp
  qed
qed

lemma loop_imp_walk:
  "chunkLoop p s e cs = Some r \<Longrightarrow> \<exists>w. walk p s e = Some w \<and> r = cs @ w"
proof (induction rule: chunkLoop.raw_induct[rotated, consumes 1])
  case (1 loop' p s e cs r)
  show ?case
  proof (cases "s < e")
    case True
    let ?c = "(s, min (s + Second * p) e)"
    have "loop' p (s + Second * p) e (cs @ [?c]) = Some r"
    proof (cases "s + Second * p < e")
      case lt: True
      with 1(2) True show ?thesis by (simp only: Let_def if_True min_def, simp)
    next
      case ge: False
      then have m: "min (s + Second * p) e = e" by simp
      from 1(2) True ge show ?thesis unfolding m by (simp only: Let_def if_True if_False)
    qed
    from 1(1)[OF this] obtain w where w: "walk p (s + Second * p) e = Some w" and r: "r = (cs @ [?c]) @ w"
      by blast
    show ?thesis using True w r by (subst walk.simps) simp
  next
    case False
    with 1(2) show ?thesis by (subst walk.simps) simp
  qed
qed

lemma chunkLoop_walk: "chunkLoop p s e cs = map_option ((@) cs) (walk p s e)"
proof (cases "walk p s e")
  case None
  then show ?thesis using loop_imp_walk[of p s e cs] by (cases "chunkLoop p s e cs") auto
next
  case (Some w)
  then show ?thesis using walk_imp_loop[of p s e w cs] by simp
qed

lemma chunksFrom_Nil: "e \<le> s \<Longrightarrow> chunksFrom d s e = []"
  by (subst chunksFrom.simps) simp

lemma chunksFrom_Cons:
  "0 < d \<Longrightarrow> s < e \<Longrightarrow> chunksFrom d s e = (s, min (s + d) e) # chunksFrom d (s + d) e"
  by (subst chunksFrom.simps) simp

lemma chunksFrom_single:
  "0 < d \<Longrightarrow> s < e \<Longrightarrow> e - s \<le> d \<Longrightarrow> chunksFrom d s e = [(s, e)]"
  by (simp add: chunksFrom_Cons chunksFrom_Nil min_def)

lemma chunksFrom_nth:
  "i < length (chunksFrom d s e) \<Longrightarrow>
   chunksFrom d s e ! i = (s + int i * d, min (s + (int i + 1) * d) e)"
proof (induction d s e arbitrary: i rule: chunksFrom.induct)
  case (1 d s e)
  show ?case
  proof (cases "0 < d \<and> s < e")
    case True
    then have c: "chunksFrom d s e = (s, min (s + d) e) # chunksFrom d (s + d) e"
      by (simp add: chunksFrom_Cons)
    show ?thesis
    proof (cases i)
      case 0
      then show ?thesis by (simp add: c)
    next
      case (Suc j)
      with 1(2) c have "j < length (chunksFrom d (s + d) e)" by simp
      from 1(1)[OF True this] show ?thesis using Suc c by (simp add: algebra_simps)
    qed
  next
    case False
    then have "chunksFrom d s e = []" by (subst chunksFrom.simps) simp
    with 1(2) show ?thesis by simp
  qed
qed

lemma chunksFrom_length:
  "0 < d \<Longrightarrow> s < e \<Longrightarrow>
   s + (int (length (chunksFrom d s e)) - 1) * d < e \<and> e \<le> s + int (length (chunksFrom d s e)) * d"
proof (induction d s e rule: chunksFrom.induct)
  case (1 d s e)
  have c: "chunksFrom d s e = (s, min (s + d) e) # chunksFrom d (s + d) e"
    using 1(2,3) by (simp add: chunksFrom_Cons)
  show ?case
  proof (cases "s + d < e")
    case True
    from 1(1) 1(2,3) True
    have "s + d + (int (length (chunksFrom d (s + d) e)) - 1) * d < e \<and>
          e \<le> s + d + int (length (chunksFrom d (s + d) e)) * d" by simp
    then show ?thesis by (simp add: c algebra_simps)
  next
    case False
    then have "chunksFrom d (s + d) e = []" by (simp add: chunksFrom_Nil)
    with False 1(2,3) show ?thesis by (simp add: c)
  qed
qed

lemma chunksFrom_union:
  "0 < d \<Longrightarrow> s < e \<Longrightarrow> (\<Union>c \<in> set (chunksFrom d s e). {fst c .. snd c}) = {s .. e}"
proof (induction d s e rule: chunksFrom.induct)
  case (1 d s e)
  have c: "chunksFrom d s e = (s, min (s + d) e) # chunksFrom d (s + d) e"
    using 1(2,3) by (simp add: chunksFrom_Cons)
  show ?case
  proof (cases "s + d < e")
    case True
    from 1(1) 1(2,3) True
    have "(\<Union>c \<in> set (chunksFrom d (s + d) e). {fst c .. snd c}) = {s + d .. e}" by simp
    then show ?thesis using True 1(2) by (auto simp: c min_def)
  next
    case False
    then have "chunksFrom d (s + d) e = []" by (simp add: chunksFrom_Nil)
    with False 1(2,3) show ?thesis by (simp add: c min_def)
  qed
qed

lemma chunksFrom_props:
  fixes d s e :: int
  assumes d: "0 < d"
  defines "cs \<equiv> chunksFrom d s e"
  shows "(\<forall>i. Suc i < length cs \<longrightarrow>
            snd (cs ! i) - fst (cs ! i) = d \<and> snd (cs ! i) = fst (cs ! Suc i)
            \<and> fst (cs ! i) < fst (cs ! Suc i))"
    and "s < e \<Longrightarrow> cs \<noteq> [] \<and> fst (hd cs) = s \<and> snd (last cs) = e"
    and "\<forall>c \<in> set cs. fst c < snd c \<and> snd c - fst c \<le> d"
proof -
  show "\<forall>i. Suc i < length cs \<longrightarrow>
            snd (cs ! i) - fst (cs ! i) = d \<and> snd (cs ! i) = fst (cs ! Suc i)
            \<and> fst (cs ! i) < fst (cs ! Suc i)"
  proof (intro allI impI)
    fix i assume i: "Suc i < length cs"
    then have ne: "cs \<noteq> []" by auto
    have se: "s < e"
    proof (rule ccontr)
      assume "\<not> s < e"
      then have "cs = []" by (simp add: cs_def chunksFrom_Nil)
      with ne show False by simp
    qed
    from chunksFrom_length[OF d se] have len: "s + (int (length cs) - 1) * d < e"
      by (simp add: cs_def)
    have "int i + 1 \<le> int (length cs) - 1" using i by simp
    then have "(int i + 1) * d \<le> (int (length cs) - 1) * d" using d by (simp add: mult_right_mono)
    with len have lt: "s + (int i + 1) * d < e" by simp
    have n0: "cs ! i = (s + int i * d, s + (int i + 1) * d)"
      using chunksFrom_nth[of i d s e] i lt by (simp add: cs_def min_def)
    have n1: "fst (cs ! Suc i) = s + (int i + 1) * d"
      using chunksFrom_nth[of "Suc i" d s e] i by (simp add: cs_def)
    show "snd (cs ! i) - fst (cs ! i) = d \<and> snd (cs ! i) = fst (cs ! Suc i)
            \<and> fst (cs ! i) < fst (cs ! Suc i)"
      using n0 n1 d by (simp add: algebra_simps)
  qed
next
  assume se: "s < e"
  have c: "cs = (s, min (s + d) e) # chunksFrom d (s + d) e"
    using d se by (simp add: cs_def chunksFrom_Cons)
  then have ne: "cs \<noteq> []" by simp
  from chunksFrom_length[OF d se]
  have len: "s + (int (length cs) - 1) * d < e" "e \<le> s + int (length cs) * d"
    by (simp_all add: cs_def)
  have l: "length cs - 1 < length cs" using ne by simp
  have "last cs = cs ! (length cs - 1)" using ne by (simp add: last_conv_nth)
  also have "\<dots> = (s + int (length cs - 1) * d, min (s + (int (length cs - 1) + 1) * d) e)"
    using chunksFrom_nth[of "length cs - 1" d s e] l unfolding cs_def by blast
  finally have "snd (last cs) = min (s + (int (length cs - 1) + 1) * d) e" by simp
  moreover have "int (length cs - 1) + 1 = int (length cs)" using ne by (cases cs) simp_all
  ultimately have "snd (last cs) = e" using len(2) by (simp add: min_def)
  with c ne show "cs \<noteq> [] \<and> fst (hd cs) = s \<and> snd (last cs) = e" by simp
next
  show "\<forall>c \<in> set cs. fst c < snd c \<and> snd c - fst c \<le> d"
  proof
    fix c assume "c \<in> set cs"
    then obtain i where i: "i < length cs" and ci: "c = cs ! i" by (auto simp: in_set_conv_nth)
    then have ne: "cs \<noteq> []" by auto
    have se: "s < e"
    proof (rule ccontr)
      assume "\<not> s < e"
      then have "cs = []" by (simp add: cs_def chunksFrom_Nil)
      with ne show False by simp
    qed
    from chunksFrom_length[OF d se] have len: "s + (int (length cs) - 1) * d < e"
      by (simp add: cs_def)
    have "int i \<le> int (length cs) - 1" using i by simp
    then have "int i * d \<le> (int (length cs) - 1) * d" using d by (simp add: mult_right_mono)
    with len have lt: "s + int i * d < e" by simp
    have "c = (s + int i * d, min (s + (int i + 1) * d) e)"
      using chunksFrom_nth[of i d s e] i ci by (simp add: cs_def)
    then show "fst c < snd c \<and> snd c - fst c \<le> d" using lt d by (simp add: min_def algebra_simps)
  qed
qed

lemma walk_diverges:
  assumes "walk p s e = Some r" shows "\<not> (p \<le> 0 \<and> s < e)"
  using assms
proof (induction rule: walk.raw_induct[rotated, consumes 1])
  case (1 walk' p s e r)
  show ?case
  proof
    assume a: "p \<le> 0 \<and> s < e"
    with 1(2) obtain rest where w: "walk' p (s + Second * p) e = Some rest"
      by (auto simp: bind_eq_Some_conv)
    from 1(1)[OF w] a have "\<not> s + Second * p < e" by simp
    moreover have "Second * p \<le> 0" using a by (simp add: Second_def mult_le_0_iff)
    ultimately show False using a by simp
  qed
qed

lemma setChunks_walk:
  assumes sv: "RawQuery url (StartName ts) = [sv]" and ev: "RawQuery url (EndName ts) = [ev]"
    and ps: "parse (layoutOf ts) sv = Some start" and pe: "parse (layoutOf ts) ev = Some endT"
  shows "setChunks parse ts url =
           map_option (\<lambda>cs. (None, ts\<lparr>Layout := Some (layoutOf ts), chunks := chunks ts @ cs\<rparr>))
             (walk (timeseries.Period ts) start endT)"
proof (cases "Layout ts")
  case None
  then have l: "layoutOf (ts\<lparr>Layout := Some RFC3339\<rparr>) = layoutOf ts" "layoutOf ts = RFC3339"
    by (simp_all add: layoutOf_def)
  show ?thesis
    using None sv ev ps pe
    by (simp add: setChunks_def Let_def l chunkLoop_walk option.map_comp comp_def)
next
  case (Some l)
  then have l: "layoutOf ts = l" by (simp add: layoutOf_def)
  have t: "ts\<lparr>Layout := Some l\<rparr> = ts" using Some by simp
  show ?thesis
    using Some sv ev ps pe
    by (simp add: setChunks_def Let_def l t chunkLoop_walk option.map_comp comp_def)
qed

text \<open>With a period that is not positive and \<open>start\<close> before \<open>end\<close>, \<open>setChunks\<close> does not return.\<close>

lemma setChunks_diverges:
  assumes sv: "RawQuery url (StartName ts) = [sv]" and ev: "RawQuery url (EndName ts) = [ev]"
    and ps: "parse (layoutOf ts) sv = Some start" and pe: "parse (layoutOf ts) ev = Some endT"
    and p: "timeseries.Period ts \<le> 0" and se: "start < endT"
  shows "setChunks parse ts url = None"
proof -
  have "walk (timeseries.Period ts) start endT = None"
  proof (cases "walk (timeseries.Period ts) start endT")
    case None
    then show ?thesis .
  next
    case (Some r)
    from walk_diverges[OF this] p se show ?thesis by simp
  qed
  then show ?thesis
    using setChunks_walk[where parse = parse, OF sv ev ps pe] by simp
qed

text \<open>
  Claim C2.  When the query of the URL carries exactly one value for the start name and
  one for the end name and both parse, \<open>setChunks\<close> appends to the chunks of the
  timeseries exactly the sequence of the reference recurrence \<open>walk\<close> (and does not
  return exactly when the recurrence does not).  If \<open>end\<close> is not after \<open>start\<close>
  the sequence is empty and no error is returned.  For a positive period the sequence
  exists; its i-th chunk starts at \<open>start\<close> plus i periods and ends one period later
  or at \<open>end\<close>, whichever comes first; every chunk but the last is one period long and
  ends where the next one starts, the starts increase; for \<open>start\<close> before \<open>end\<close>
  the first chunk starts at \<open>start\<close>, the last ends at \<open>end\<close> and the union of the
  chunks is the interval from \<open>start\<close> to \<open>end\<close>; a period that is not shorter than
  the window gives the single chunk from \<open>start\<close> to \<open>end\<close>.
\<close>

theorem setChunks_reference_recurrence:
  assumes sv: "RawQuery url (StartName ts) = [sv]" and ev: "RawQuery url (EndName ts) = [ev]"
    and ps: "parse (layoutOf ts) sv = Some start" and pe: "parse (layoutOf ts) ev = Some endT"
  shows "setChunks parse ts url =
           map_option (\<lambda>cs. (None, ts\<lparr>Layout := Some (layoutOf ts), chunks := chunks ts @ cs\<rparr>))
             (walk (timeseries.Period ts) start endT)
       \<and> (endT \<le> start \<longrightarrow> walk (timeseries.Period ts) start endT = Some [])
       \<and> (0 < timeseries.Period ts \<longrightarrow>
            (\<exists>cs. walk (timeseries.Period ts) start endT = Some cs
               \<and> (\<forall>i < length cs.
                     cs ! i = (start + int i * (Second * timeseries.Period ts),
                               min (start + (int i + 1) * (Second * timeseries.Period ts)) endT))
               \<and> (\<forall>i. Suc i < length cs \<longrightarrow>
                     snd (cs ! i) - fst (cs ! i) = Second * timeseries.Period ts
                     \<and> snd (cs ! i) = fst (cs ! Suc i)
                     \<and> fst (cs ! i) < fst (cs ! Suc i))
               \<and> (\<forall>c \<in> set cs. fst c < snd c \<and> snd c - fst c \<le> Second * timeseries.Period ts)
               \<and> (start < endT \<longrightarrow>
                     cs \<noteq> [] \<and> fst (hd cs) = start \<and> snd (last cs) = endT
                     \<and> (\<Union>c \<in> set cs. {fst c .. snd c}) = {start .. endT})
               \<and> (start < endT \<and> endT - start \<le> Second * timeseries.Period ts \<longrightarrow> cs = [(start, endT)])))"
proof (intro conjI impI)
  show "setChunks parse ts url =
           map_option (\<lambda>cs. (None, ts\<lparr>Layout := Some (layoutOf ts), chunks := chunks ts @ cs\<rparr>))
             (walk (timeseries.Period ts) start endT)"
    by (rule setChunks_walk[where parse = parse, OF sv ev ps pe])
next
  assume "endT \<le> start"
  then show "walk (timeseries.Period ts) start endT = Some []" by (subst walk.simps) simp
next
  assume p: "0 < timeseries.Period ts"
  then have d: "0 < Second * timeseries.Period ts" by (simp add: Second_def)
  let ?cs = "chunksFrom (Second * timeseries.Period ts) start endT"
  have w: "walk (timeseries.Period ts) start endT = Some ?cs" by (rule walk_chunksFrom[OF p])
  have a: "\<forall>i < length ?cs.
             ?cs ! i = (start + int i * (Second * timeseries.Period ts),
                        min (start + (int i + 1) * (Second * timeseries.Period ts)) endT)"
    by (simp add: chunksFrom_nth)
  have b: "start < endT \<longrightarrow>
             ?cs \<noteq> [] \<and> fst (hd ?cs) = start \<and> snd (last ?cs) = endT
             \<and> (\<Union>c \<in> set ?cs. {fst c .. snd c}) = {start .. endT}"
    using chunksFrom_props(2)[OF d, of start endT] chunksFrom_union[OF d, of start endT] by blast
  have c: "start < endT \<and> endT - start \<le> Second * timeseries.Period ts \<longrightarrow> ?cs = [(start, endT)]"
    using chunksFrom_single[OF d, of start endT] by blast
  show "\<exists>cs. walk (timeseries.Period ts) start endT = Some cs
               \<and> (\<forall>i < length cs.
                     cs ! i = (start + int i * (Second * timeseries.Period ts),
                               min (start + (int i + 1) * (Second * timeseries.Period ts)) endT))
               \<and> (\<forall>i. Suc i < length cs \<longrightarrow>
                     snd (cs ! i) - fst (cs ! i) = Second * timeseries.Period ts
                     \<and> snd (cs ! i) = fst (cs ! Suc i)
                     \<and> fst (cs ! i) < fst (cs ! Suc i))
               \<and> (\<forall>c \<in> set cs. fst c < snd c \<and> snd c - fst c \<le> Second * timeseries.Period ts)
               \<and> (start < endT \<longrightarrow>
                     cs \<noteq> [] \<and> fst (hd cs) = start \<and> snd (last cs) = endT
                     \<and> (\<Union>c \<in> set cs. {fst c .. snd c}) = {start .. endT})
               \<and> (start < endT \<and> endT - start \<le> Second * timeseries.Period ts \<longrightarrow> cs = [(start, endT)])"
    using w a b c chunksFrom_props(1)[OF d, of start endT] chunksFrom_props(3)[OF d, of start endT]
    by blast
qed

lemma demo_layout: "layoutOf demoTimeseries = RFC3339"
  by (simp add: layoutOf_def demoTimeseries_def)

lemma demo_walk:
  "walk 60 (1704067200 * Second) (1704067380 * Second) =
     Some [(1704067200 * Second, 1704067260 * Second),
           (1704067260 * Second, 1704067320 * Second),
           (1704067320 * Second, 1704067380 * Second)]"
  by (simp add: walk.simps Second_def)

theorem setChunks_reference_recurrence_witness:
  "setChunks demoParse demoTimeseries demoURL =
     Some (None, demoTimeseries\<lparr>Layout := Some RFC3339,
             chunks := [(1704067200 * Second, 1704067260 * Second),
                        (1704067260 * Second, 1704067320 * Second),
                        (1704067320 * Second, 1704067380 * Second)]\<rparr>)
   \<and> setChunks demoParse demoTimeseries demoReversedURL =
     Some (None, demoTimeseries\<lparr>Layout := Some RFC3339, chunks := []\<rparr>)"
proof -
  have sv: "RawQuery demoURL (StartName demoTimeseries) = [''2024-01-01T00:00:00Z'']"
    by (simp add: demoURL_def demoTimeseries_def demoQuery_def)
  have ev: "RawQuery demoURL (EndName demoTimeseries) = [''2024-01-01T00:03:00Z'']"
    by (simp add: demoURL_def demoTimeseries_def demoQuery_def)
  have rsv: "RawQuery demoReversedURL (StartName demoTimeseries) = [''2024-01-01T00:03:00Z'']"
    by (simp add: demoReversedURL_def demoTimeseries_def demoQuery_def)
  have rev: "RawQuery demoReversedURL (EndName demoTimeseries) = [''2024-01-01T00:00:00Z'']"
    by (simp add: demoReversedURL_def demoTimeseries_def demoQuery_def)
  have ps: "demoParse (layoutOf demoTimeseries) ''2024-01-01T00:00:00Z'' = Some (1704067200 * Second)"
    by (simp add: demo_layout demoParse_def)
  have pe: "demoParse (layoutOf demoTimeseries) ''2024-01-01T00:03:00Z'' = Some (1704067380 * Second)"
    by (simp add: demo_layout demoParse_def)
  have p: "timeseries.Period demoTimeseries = 60" "chunks demoTimeseries = []"
    by (simp_all add: demoTimeseries_def)
  have le: "1704067200 * Second \<le> 1704067380 * Second" by (simp add: Second_def)
  from setChunks_reference_recurrence[where parse = demoParse, OF sv ev ps pe]
  have a: "setChunks demoParse demoTimeseries demoURL =
     Some (None, demoTimeseries\<lparr>Layout := Some RFC3339,
             chunks := [(1704067200 * Second, 1704067260 * Second),
                        (1704067260 * Second, 1704067320 * Second),
                        (1704067320 * Second, 1704067380 * Second)]\<rparr>)"
    by (simp add: p demo_walk demo_layout)
  note r = setChunks_reference_recurrence[where parse = demoParse, OF rsv rev pe ps]
  from r[THEN conjunct2, THEN conjunct1] le
  have w: "walk (timeseries.Period demoTimeseries) (1704067380 * Second) (1704067200 * Second) = Some []"
    by (rule mp)
  have b: "setChunks demoParse demoTimeseries demoReversedURL =
     Some (None, demoTimeseries\<lparr>Layout := Some RFC3339, chunks := []\<rparr>)"
    using r[THEN conjunct1] unfolding w by (simp add: p demo_layout)
  from a b show ?thesis by (rule conjI)
qed

lemma layout_norm:
  "(case Layout ts of None \<Rightarrow> ts\<lparr>Layout := Some RFC3339\<rparr> | Some l \<Rightarrow> ts) = ts\<lparr>Layout := Some (layoutOf ts)\<rparr>"
  by (cases "Layout ts") (simp_all add: layoutOf_def)

lemma layoutOf_norm: "layoutOf (ts\<lparr>Layout := Some (layoutOf ts)\<rparr>) = layoutOf ts"
  by (simp add: layoutOf_def)

lemma setChunks_unfold:
  "setChunks parse ts url =
     (case RawQuery url (StartName ts) of
        [sv] \<Rightarrow>
          (case parse (layoutOf ts) sv of
             None \<Rightarrow> Some (Some (UnableToParseError ''startTime''), ts\<lparr>Layout := Some (layoutOf ts)\<rparr>)
           | Some start \<Rightarrow>
               (case RawQuery url (EndName ts) of
                  [ev] \<Rightarrow>
                    (case parse (layoutOf ts) ev of
                       None \<Rightarrow> Some (Some (UnableToParseError ''endTime''), ts\<lparr>Layout := Some (layoutOf ts)\<rparr>)
                     | Some endT \<Rightarrow>
                         map_option (\<lambda>cs. (None, ts\<lparr>Layout := Some (layoutOf ts), chunks := cs\<rparr>))
                           (chunkLoop (timeseries.Period ts) start endT (chunks ts)))
                | _ \<Rightarrow> Some (Some (MissingTimeseriesFieldError ''endName''), ts\<lparr>Layout := Some (layoutOf ts)\<rparr>)))
      | _ \<Rightarrow> Some (Some (MissingTimeseriesFieldError ''startName''), ts\<lparr>Layout := Some (layoutOf ts)\<rparr>))"
  unfolding setChunks_def layout_norm Let_def
  by (simp add: layoutOf_norm cong: list.case_cong option.case_cong)

lemma not_single: "length xs \<noteq> 1 \<Longrightarrow> (case xs of [x] \<Rightarrow> f x | _ \<Rightarrow> g) = g"
  by (cases xs; cases "tl xs") auto

text \<open>
  Claim C8.  The errors of \<open>setChunks\<close>, in the order of its checks: a start name
  that does not occur exactly once in the query gives the missing-field error for
  \<open>startName\<close>; a start value that does not parse under the layout (RFC3339 when the
  layout is absent) gives the unable-to-parse error for \<open>startTime\<close>; then an end name
  that does not occur exactly once gives the missing-field error for \<open>endName\<close>, and
  an end value that does not parse the unable-to-parse error for \<open>endTime\<close>.  When
  both values are present once and parse, no error is returned.  Whenever an error is
  returned the chunks of the timeseries are unchanged; only the layout default has been
  stored.
\<close>

theorem setChunks_errors:
  "(length (RawQuery url (StartName ts)) \<noteq> 1 \<longrightarrow>
      setChunks parse ts url =
        Some (Some (MissingTimeseriesFieldError ''startName''), ts\<lparr>Layout := Some (layoutOf ts)\<rparr>))
 \<and> (\<forall>sv. RawQuery url (StartName ts) = [sv] \<and> parse (layoutOf ts) sv = None \<longrightarrow>
      setChunks parse ts url =
        Some (Some (UnableToParseError ''startTime''), ts\<lparr>Layout := Some (layoutOf ts)\<rparr>))
 \<and> (\<forall>sv start. RawQuery url (StartName ts) = [sv] \<and> parse (layoutOf ts) sv = Some start
        \<and> length (RawQuery url (EndName ts)) \<noteq> 1 \<longrightarrow>
      setChunks parse ts url =
        Some (Some (MissingTimeseriesFieldError ''endName''), ts\<lparr>Layout := Some (layoutOf ts)\<rparr>))
 \<and> (\<forall>sv start ev. RawQuery url (StartName ts) = [sv] \<and> parse (layoutOf ts) sv = Some start
        \<and> RawQuery url (EndName ts) = [ev] \<and> parse (layoutOf ts) ev = None \<longrightarrow>
      setChunks parse ts url =
        Some (Some (UnableToParseError ''endTime''), ts\<lparr>Layout := Some (layoutOf ts)\<rparr>))
 \<and> (\<forall>sv start ev endT. RawQuery url (StartName ts) = [sv] \<and> parse (layoutOf ts) sv = Some start
        \<and> RawQuery url (EndName ts) = [ev] \<and> parse (layoutOf ts) ev = Some endT \<longrightarrow>
      (\<forall>e ts'. setChunks parse ts url \<noteq> Some (Some e, ts')))
 \<and> (\<forall>e ts'. setChunks parse ts url = Some (Some e, ts') \<longrightarrow>
      chunks ts' = chunks ts \<and> ts' = ts\<lparr>Layout := Some (layoutOf ts)\<rparr>)"
proof (intro conjI allI impI)
  assume "length (RawQuery url (StartName ts)) \<noteq> 1"
  then show "setChunks parse ts url =
        Some (Some (MissingTimeseriesFieldError ''startName''), ts\<lparr>Layout := Some (layoutOf ts)\<rparr>)"
    unfolding setChunks_unfold by (rule not_single)
next
  fix sv assume "RawQuery url (StartName ts) = [sv] \<and> parse (layoutOf ts) sv = None"
  then show "setChunks parse ts url =
        Some (Some (UnableToParseError ''startTime''), ts\<lparr>Layout := Some (layoutOf ts)\<rparr>)"
    unfolding setChunks_unfold by simp
next
  fix sv start
  assume a: "RawQuery url (StartName ts) = [sv] \<and> parse (layoutOf ts) sv = Some start
        \<and> length (RawQuery url (EndName ts)) \<noteq> 1"
  then show "setChunks parse ts url =
        Some (Some (MissingTimeseriesFieldError ''endName''), ts\<lparr>Layout := Some (layoutOf ts)\<rparr>)"
    unfolding setChunks_unfold by (simp add: not_single)
next
  fix sv start ev
  assume "RawQuery url (StartName ts) = [sv] \<and> parse (layoutOf ts) sv = Some start
        \<and> RawQuery url (EndName ts) = [ev] \<and> parse (layoutOf ts) ev = None"
  then show "setChunks parse ts url =
        Some (Some (UnableToParseError ''endTime''), ts\<lparr>Layout := Some (layoutOf ts)\<rparr>)"
    unfolding setChunks_unfold by simp
next
  fix sv start ev endT e ts'
  assume "RawQuery url (StartName ts) = [sv] \<and> parse (layoutOf ts) sv = Some start
        \<and> RawQuery url (EndName ts) = [ev] \<and> parse (layoutOf ts) ev = Some endT"
  then show "setChunks parse ts url \<noteq> Some (Some e, ts')"
    unfolding setChunks_unfold by auto
next
  fix e ts'
  assume a: "setChunks parse ts url = Some (Some e, ts')"
  have "ts' = ts\<lparr>Layout := Some (layoutOf ts)\<rparr>"
    using a unfolding setChunks_unfold
    by (simp split: list.splits option.splits)
  then show "chunks ts' = chunks ts" "ts' = ts\<lparr>Layout := Some (layoutOf ts)\<rparr>" by simp_all
qed

theorem setChunks_errors_witness:
  "setChunks demoParse demoBadLayout demoURL =
     Some (Some (UnableToParseError ''startTime''), demoBadLayout)
 \<and> setChunks demoParse demoTimeseries (demoURL\<lparr>RawQuery := demoQuery []\<rparr>) =
     Some (Some (MissingTimeseriesFieldError ''startName''), demoTimeseries\<lparr>Layout := Some RFC3339\<rparr>)"
proof -
  have l: "layoutOf demoBadLayout = ''2006-01-02''"
    by (simp add: demoBadLayout_def layoutOf_def)
  have t: "demoBadLayout\<lparr>Layout := Some ''2006-01-02''\<rparr> = demoBadLayout"
    by (simp add: demoBadLayout_def)
  have sv: "RawQuery demoURL (StartName demoBadLayout) = [''2024-01-01T00:00:00Z'']"
    by (simp add: demoURL_def demoBadLayout_def demoTimeseries_def demoQuery_def)
  have ps: "demoParse (layoutOf demoBadLayout) ''2024-01-01T00:00:00Z'' = None"
    unfolding l by (simp add: demoParse_def RFC3339_def)
  have m: "length (RawQuery (demoURL\<lparr>RawQuery := demoQuery []\<rparr>) (StartName demoTimeseries)) \<noteq> 1"
    by (simp add: demoQuery_def)
  have "setChunks demoParse demoBadLayout demoURL =
     Some (Some (UnableToParseError ''startTime''), demoBadLayout\<lparr>Layout := Some (layoutOf demoBadLayout)\<rparr>)"
    using setChunks_errors[where parse = demoParse and ts = demoBadLayout and url = demoURL,
        THEN conjunct2, THEN conjunct1, rule_format, OF conjI, OF sv ps] .
  then have a: "setChunks demoParse demoBadLayout demoURL =
     Some (Some (UnableToParseError ''startTime''), demoBadLayout)"
    unfolding l t .
  have "setChunks demoParse demoTimeseries (demoURL\<lparr>RawQuery := demoQuery []\<rparr>) =
     Some (Some (MissingTimeseriesFieldError ''startName''),
           demoTimeseries\<lparr>Layout := Some (layoutOf demoTimeseries)\<rparr>)"
    using setChunks_errors[where parse = demoParse and ts = demoTimeseries
        and url = "demoURL\<lparr>RawQuery := demoQuery []\<rparr>", THEN conjunct1, rule_format, OF m] .
  then have b: "setChunks demoParse demoTimeseries (demoURL\<lparr>RawQuery := demoQuery []\<rparr>) =
     Some (Some (MissingTimeseriesFieldError ''startName''), demoTimeseries\<lparr>Layout := Some RFC3339\<rparr>)"
    unfolding demo_layout .
  from a b show ?thesis by (rule conjI)
qed

section \<open>Set-up, truncation and commit: the calls made\<close>

lemma commitAll_ok:
  "\<forall>r \<in> set rs. CommitTx env r = None \<Longrightarrow> commitAll env rs = (None, map EvCommit rs)"
  by (induction rs) auto

lemma commitAll_fail:
  "k < length rs \<Longrightarrow> \<forall>j<k. CommitTx env (rs ! j) = None \<Longrightarrow> CommitTx env (rs ! k) = Some c
   \<Longrightarrow> commitAll env rs = (Some c, map EvCommit (take (Suc k) rs))"
proof (induction rs arbitrary: k)
  case Nil
  then show ?case by simp
next
  case (Cons r rs)
  show ?case
  proof (cases k)
    case 0
    with Cons.prems show ?thesis by simp
  next
    case (Suc k')
    have r: "CommitTx env r = None" using Cons.prems(2) Suc by auto
    have "commitAll env rs = (Some c, map EvCommit (take (Suc k') rs))"
    proof (rule Cons.IH)
      show "k' < length rs" using Cons.prems(1) Suc by simp
      show "\<forall>j<k'. CommitTx env (rs ! j) = None"
        using Cons.prems(2) Suc by (metis Suc_less_eq nth_Cons_Suc)
      show "CommitTx env (rs ! k') = Some c" using Cons.prems(3) Suc by simp
    qed
    then show ?thesis using r Suc by simp
  qed
qed

lemma commitAll_events:
  "\<exists>n \<le> length rs. snd (commitAll env rs) = map EvCommit (take n rs)"
proof (induction rs)
  case Nil
  then show ?case by simp
next
  case (Cons r rs)
  then obtain n where n: "n \<le> length rs" "snd (commitAll env rs) = map EvCommit (take n rs)"
    by blast
  show ?case
  proof (cases "CommitTx env r")
    case None
    then have "snd (commitAll env (r # rs)) = map EvCommit (take (Suc n) (r # rs))"
      using n(2) by (cases "commitAll env rs") simp
    then show ?thesis using n(1) by (intro exI[of _ "Suc n"]) simp
  next
    case (Some e)
    then have "snd (commitAll env (r # rs)) = map EvCommit (take (Suc 0) (r # rs))" by simp
    then show ?thesis by (intro exI[of _ "Suc 0"]) simp
  qed
qed

lemma truncateAll_ok:
  "\<forall>r \<in> set rs. TruncateTx env r tables = None \<Longrightarrow>
   truncateAll env rs tables = (None, map (\<lambda>r. EvTruncate r tables) rs)"
  by (induction rs) auto

lemma truncateAll_events:
  "\<exists>n \<le> length rs. snd (truncateAll env rs tables) = map (\<lambda>r. EvTruncate r tables) (take n rs)
      \<and> (fst (truncateAll env rs tables) = None \<longrightarrow> n = length rs)"
proof (induction rs)
  case Nil
  then show ?case by simp
next
  case (Cons r rs)
  then obtain n where nn: "n \<le> length rs \<and>
     snd (truncateAll env rs tables) = map (\<lambda>r. EvTruncate r tables) (take n rs) \<and>
     (fst (truncateAll env rs tables) = None \<longrightarrow> n = length rs)" ..
  note n = nn[THEN conjunct1] nn[THEN conjunct2, THEN conjunct1] nn[THEN conjunct2, THEN conjunct2]
  obtain res evs where t: "truncateAll env rs tables = (res, evs)"
    by (cases "truncateAll env rs tables")
  show ?case
  proof (cases "TruncateTx env r tables")
    case None
    show ?thesis
    proof (intro exI[of _ "Suc n"] conjI impI)
      show "Suc n \<le> length (r # rs)" using n(1) by simp
      show "snd (truncateAll env (r # rs) tables) = map (\<lambda>r. EvTruncate r tables) (take (Suc n) (r # rs))"
        using None n(2) t by simp
      assume "fst (truncateAll env (r # rs) tables) = None"
      then have "res = None" using None t by simp
      then show "Suc n = length (r # rs)" using n(3) t by simp
    qed
  next
    case (Some e)
    show ?thesis
    proof (intro exI[of _ "Suc 0"] conjI impI)
      show "Suc 0 \<le> length (r # rs)" by simp
      show "snd (truncateAll env (r # rs) tables) = map (\<lambda>r. EvTruncate r tables) (take (Suc 0) (r # rs))"
        using Some by simp
      assume "fst (truncateAll env (r # rs) tables) = None"
      then show "Suc 0 = length (r # rs)" using Some by simp
    qed
  qed
qed

lemma reposLoop_events:
  "\<exists>n \<le> length dnss.
     snd (reposLoop env i dnss rs) = map EvNewTx (take n (zip [i ..< i + length dnss] dnss))
   \<and> (\<forall>rs'. fst (reposLoop env i dnss rs) = Inr rs' \<longrightarrow>
         n = length dnss \<and> rs' = rs @ zip [i ..< i + length dnss] dnss)"
proof (induction dnss arbitrary: i rs)
  case Nil
  then show ?case by simp
next
  case (Cons dns dnss)
  have z: "zip [i ..< i + length (dns # dnss)] (dns # dnss)
           = (i, dns) # zip [Suc i ..< Suc i + length dnss] dnss"
    by (subst upt_rec) simp
  show ?case
  proof (cases "NewTx env (i, dns)")
    case (Some e)
    then have a: "snd (reposLoop env i (dns # dnss) rs)
                 = map EvNewTx (take (Suc 0) (zip [i ..< i + length (dns # dnss)] (dns # dnss)))"
      and b: "\<forall>rs'. fst (reposLoop env i (dns # dnss) rs) \<noteq> Inr rs'"
      unfolding z by simp_all
    show ?thesis
    proof (intro exI[of _ "Suc 0"] conjI)
      show "Suc 0 \<le> length (dns # dnss)" by simp
      show "\<forall>rs'. fst (reposLoop env i (dns # dnss) rs) = Inr rs' \<longrightarrow>
         Suc 0 = length (dns # dnss) \<and> rs' = rs @ zip [i ..< i + length (dns # dnss)] (dns # dnss)"
        using b by blast
    qed (rule a)
  next
    case None
    from Cons.IH[of "Suc i" "rs @ [(i, dns)]"] obtain n where nn: "n \<le> length dnss \<and>
      snd (reposLoop env (Suc i) dnss (rs @ [(i, dns)]))
         = map EvNewTx (take n (zip [Suc i ..< Suc i + length dnss] dnss)) \<and>
      (\<forall>rs'. fst (reposLoop env (Suc i) dnss (rs @ [(i, dns)])) = Inr rs' \<longrightarrow>
         n = length dnss \<and> rs' = (rs @ [(i, dns)]) @ zip [Suc i ..< Suc i + length dnss] dnss)" ..
    note n = nn[THEN conjunct1] nn[THEN conjunct2, THEN conjunct1] nn[THEN conjunct2, THEN conjunct2]
    obtain res evs where t: "reposLoop env (Suc i) dnss (rs @ [(i, dns)]) = (res, evs)"
      by (cases "reposLoop env (Suc i) dnss (rs @ [(i, dns)])")
    have a: "snd (reposLoop env i (dns # dnss) rs)
            = map EvNewTx (take (Suc n) (zip [i ..< i + length (dns # dnss)] (dns # dnss)))"
      unfolding z using None n(2) t by simp
    have b: "\<forall>rs'. fst (reposLoop env i (dns # dnss) rs) = Inr rs' \<longrightarrow>
         Suc n = length (dns # dnss) \<and> rs' = rs @ zip [i ..< i + length (dns # dnss)] (dns # dnss)"
      unfolding z using None n(3) t by simp
    show ?thesis
    proof (intro exI[of _ "Suc n"] conjI)
      show "Suc n \<le> length (dns # dnss)" using n(1) by simp
    qed (rule a, rule b)
  qed
qed

lemma repos_events:
  "\<exists>n \<le> length (backends cfg).
     snd (repos env cfg) = map EvNewTx (take n (backends cfg))
   \<and> (\<forall>rs. fst (repos env cfg) = Inr rs \<longrightarrow> n = length (backends cfg) \<and> rs = backends cfg)"
  using reposLoop_events[of "DNSList cfg" env 0 "[]"]
  by (simp add: repos_def backends_def)

lemma connect_events: "\<forall>e \<in> set (snd (connect env cfg)). \<exists>sg. e = EvNewClient sg"
  by (auto simp: connect_def Let_def split: option.splits)

section \<open>Planning: what it leaves unchanged\<close>

lemma setQuery_frame [simp]:
  "requests (setQuery st qa n v) = requests st" "series (setQuery st qa n v) = series st"
  by (simp_all add: setQuery_def)

lemma newFetchConfig_limiter:
  "newFetchConfig env cfg st a client rl = Inr fc \<Longrightarrow> RateLimiter fc = rl"
  by (auto simp: newFetchConfig_def Let_def split: sum.splits)

lemma chunkRequests_frame:
  "chunkRequests env cfg req tsa client rl cs st fl = (oc, st', fl') \<Longrightarrow>
   requests st' = requests st \<and> series st' = series st"
proof (induction cs arbitrary: st fl)
  case Nil
  then show ?case by simp
next
  case (Cons c cs)
  show ?case
  proof (cases "Query (requests st req)")
    case None
    with Cons.prems show ?thesis by simp
  next
    case (Some qa)
    let ?ts = "series st tsa"
    let ?st1 = "setQuery st qa (StartName ?ts) (FormatTime env (layoutOf ?ts) (fst c))"
    let ?st2 = "setQuery ?st1 qa (EndName ?ts) (FormatTime env (layoutOf ?ts) (snd c))"
    show ?thesis
    proof (cases "newFetchConfig env cfg ?st2 req client rl")
      case (Inl e)
      with Cons.prems Some have "st' = ?st2" by (simp add: Let_def)
      then show ?thesis by simp
    next
      case (Inr cfc)
      with Cons.prems Some
      have "chunkRequests env cfg req tsa client rl cs ?st2
              (fl @ [\<lparr>fetchConfig = cfc, table = Table (requests ?st2 req)\<rparr>]) = (oc, st', fl')"
        by (simp add: Let_def)
      from Cons.IH[OF this] show ?thesis by simp
    qed
  qed
qed

lemma chunkRequests_limiter:
  "chunkRequests env cfg req tsa client rl cs st fl = (oc, st', fl') \<Longrightarrow>
   \<forall>f \<in> set fl. RateLimiter (fetchConfig f) = rl \<Longrightarrow>
   \<forall>f \<in> set fl'. RateLimiter (fetchConfig f) = rl"
proof (induction cs arbitrary: st fl)
  case Nil
  then show ?case by simp
next
  case (Cons c cs)
  show ?case
  proof (cases "Query (requests st req)")
    case None
    with Cons.prems show ?thesis by simp
  next
    case (Some qa)
    let ?ts = "series st tsa"
    let ?st1 = "setQuery st qa (StartName ?ts) (FormatTime env (layoutOf ?ts) (fst c))"
    let ?st2 = "setQuery ?st1 qa (EndName ?ts) (FormatTime env (layoutOf ?ts) (snd c))"
    show ?thesis
    proof (cases "newFetchConfig env cfg ?st2 req client rl")
      case (Inl e)
      with Cons.prems(1) Some have "fl' = fl" by (simp add: Let_def)
      with Cons.prems(2) show ?thesis by simp
    next
      case (Inr cfc)
      with Cons.prems(1) Some
      have "chunkRequests env cfg req tsa client rl cs ?st2
              (fl @ [\<lparr>fetchConfig = cfc, table = Table (requests ?st2 req)\<rparr>]) = (oc, st', fl')"
        by (simp add: Let_def)
      moreover have "\<forall>f \<in> set (fl @ [\<lparr>fetchConfig = cfc, table = Table (requests ?st2 req)\<rparr>]).
                       RateLimiter (fetchConfig f) = rl"
        using Cons.prems(2) newFetchConfig_limiter[OF Inr] by simp
      ultimately show ?thesis by (rule Cons.IH)
    qed
  qed
qed

text \<open>What one round of the request loop leaves untouched and what it adds.\<close>

lemma planRequest_frame:
  assumes "planRequest env cfg client rl reqp st fl tables = (oc, st', fl', tables')"
  shows "(\<forall>a. Table (requests st' a) = Table (requests st a))
       \<and> ((\<forall>f \<in> set fl. RateLimiter (fetchConfig f) = rl) \<longrightarrow>
            (\<forall>f \<in> set fl'. RateLimiter (fetchConfig f) = rl))
       \<and> (oc = Returned None \<longrightarrow> tables' = tables @ requestTables st [reqp])"
proof (cases reqp)
  case None
  with assms have "oc = Panicked ''nil pointer dereference''" "st' = st" "fl' = fl"
    by (simp_all add: planRequest_def)
  then show ?thesis by simp
next
  case (Some req)
  let ?st1 = "defaultMethod st req"
  have t1: "\<And>a. Table (requests ?st1 a) = Table (requests st a)"
    by (simp add: defaultMethod_def)
  have rt: "\<And>s. (\<And>a. Table (requests s a) = Table (requests st a)) \<Longrightarrow>
              addTable s req tables = tables @ requestTables st [reqp]"
    using Some by (simp add: addTable_def requestTables_def split: option.splits)
  show ?thesis
  proof (cases "newFetchConfig env cfg ?st1 req client rl")
    case (Inl e)
    have pr: "planRequest env cfg client rl reqp st fl tables = (Returned (Some e), ?st1, fl, tables)"
      using Some Inl by (simp add: planRequest_def Let_def)
    from assms[unfolded pr] have "oc = Returned (Some e)" "st' = ?st1" "fl' = fl"
      by auto
    then show ?thesis using t1 by simp
  next
    case (Inr fc)
    note fcl = newFetchConfig_limiter[OF Inr]
    show ?thesis
    proof (cases "Timeseries (requests ?st1 req)")
      case None
      have pr: "planRequest env cfg client rl reqp st fl tables =
                  (Returned None, ?st1,
                   fl @ [\<lparr>fetchConfig = fc, table = Table (requests ?st1 req)\<rparr>],
                   addTable ?st1 req tables)"
        using Some Inr None by (simp add: planRequest_def Let_def)
      from assms[unfolded pr]
      have r: "oc = Returned None" "st' = ?st1"
         "fl' = fl @ [\<lparr>fetchConfig = fc, table = Table (requests ?st1 req)\<rparr>]"
         "tables' = addTable ?st1 req tables"
        by auto
      show ?thesis unfolding r using t1 fcl rt[of ?st1] by simp
    next
      case tsS: (Some tsa)
      show ?thesis
      proof (cases "setChunks (ParseTime env) (series ?st1 tsa) (FetchConfig.URL fc)")
        case None
        have pr: "planRequest env cfg client rl reqp st fl tables = (NoReturn, ?st1, fl, tables)"
          using Some Inr tsS None by (simp add: planRequest_def Let_def)
        from assms[unfolded pr] have "oc = NoReturn" "st' = ?st1" "fl' = fl"
          by auto
        then show ?thesis using t1 by simp
      next
        case scS: (Some res)
        obtain eo ts' where res: "res = (eo, ts')" by (cases res)
        let ?st2 = "?st1\<lparr>series := (series ?st1)(tsa := ts')\<rparr>"
        have t2: "\<And>a. Table (requests ?st2 a) = Table (requests st a)" using t1 by simp
        show ?thesis
        proof (cases eo)
          case (Some e)
          have pr: "planRequest env cfg client rl reqp st fl tables =
                      (Returned (Some ErrSettingTimeseriesChunks), ?st2, fl, tables)"
            using \<open>reqp = Some req\<close> Inr tsS scS res Some by (simp add: planRequest_def Let_def)
          from assms[unfolded pr]
          have "oc = Returned (Some ErrSettingTimeseriesChunks)" "st' = ?st2" "fl' = fl"
            by auto
          then show ?thesis using t2 by simp
        next
          case None
          obtain oc3 st3 fl3 where cr:
            "chunkRequests env cfg req tsa client rl (chunks ts') ?st2 fl = (oc3, st3, fl3)"
            by (cases "chunkRequests env cfg req tsa client rl (chunks ts') ?st2 fl")
          have t3: "\<And>a. Table (requests st3 a) = Table (requests st a)"
            using chunkRequests_frame[OF cr] t2 by simp
          have l3: "(\<forall>f \<in> set fl. RateLimiter (fetchConfig f) = rl) \<longrightarrow>
                      (\<forall>f \<in> set fl3. RateLimiter (fetchConfig f) = rl)"
            using chunkRequests_limiter[OF cr] by blast
          have pr: "planRequest env cfg client rl reqp st fl tables =
                      (case (oc3, st3, fl3) of
                         (Returned None, st3, fl3) \<Rightarrow> (Returned None, st3, fl3, addTable st3 req tables)
                       | (oc, st3, fl3) \<Rightarrow> (oc, st3, fl3, tables))"
            using \<open>reqp = Some req\<close> Inr tsS scS res None cr
            by (simp add: planRequest_def Let_def)
          show ?thesis
          proof (cases "oc3 = Returned None")
            case True
            from assms[unfolded pr True] have "oc = Returned None" "st' = st3" "fl' = fl3"
               "tables' = addTable st3 req tables" by auto
            then show ?thesis using t3 l3 rt[of st3] by simp
          next
            case False
            then have c: "(case (oc3, st3, fl3) of
                         (Returned None, st3, fl3) \<Rightarrow> (Returned None, st3, fl3, addTable st3 req tables)
                       | (oc, st3, fl3) \<Rightarrow> (oc, st3, fl3, tables)) = (oc3, st3, fl3, tables)"
              by (cases oc3) (auto split: option.splits)
            from assms[unfolded pr c] have "oc = oc3" "st' = st3" "fl' = fl3" by auto
            then show ?thesis using t3 l3 False by simp
          qed
        qed
      qed
    qed
  qed
qed

lemma requestTables_Cons:
  "requestTables st (reqp # reqs) = requestTables st [reqp] @ requestTables st reqs"
  by (simp add: requestTables_def)

lemma requestTables_cong:
  "(\<And>a. Table (requests st' a) = Table (requests st a)) \<Longrightarrow>
   requestTables st' reqs = requestTables st reqs"
  by (simp add: requestTables_def cong: option.case_cong)

lemma planRequests_frame:
  "planRequests env cfg client rl reqs st fl tables = (oc, st', fl', tables') \<Longrightarrow>
     (\<forall>a. Table (requests st' a) = Table (requests st a))
   \<and> ((\<forall>f \<in> set fl. RateLimiter (fetchConfig f) = rl) \<longrightarrow>
        (\<forall>f \<in> set fl'. RateLimiter (fetchConfig f) = rl))
   \<and> (oc = Returned None \<longrightarrow> tables' = tables @ requestTables st reqs)"
proof (induction reqs arbitrary: st fl tables)
  case Nil
  then have "oc = Returned None" "st' = st" "fl' = fl" "tables' = tables" by auto
  then show ?case by (simp add: requestTables_def)
next
  case (Cons reqp reqs)
  obtain oc1 st1 fl1 tables1 where p1:
    "planRequest env cfg client rl reqp st fl tables = (oc1, st1, fl1, tables1)"
    by (cases "planRequest env cfg client rl reqp st fl tables")
  note f1 = planRequest_frame[OF p1]
  have f1a: "\<And>a. Table (requests st1 a) = Table (requests st a)"
    using f1[THEN conjunct1] by (rule spec)
  note f1b = f1[THEN conjunct2, THEN conjunct1]
  note f1c = f1[THEN conjunct2, THEN conjunct2]
  show ?case
  proof (cases "oc1 = Returned None")
    case True
    have step: "planRequests env cfg client rl (reqp # reqs) st fl tables =
                planRequests env cfg client rl reqs st1 fl1 tables1"
      using p1 True by simp
    have "planRequests env cfg client rl reqs st1 fl1 tables1 = (oc, st', fl', tables')"
      using Cons.prems unfolding step .
    note f2 = Cons.IH[OF this]
    have f2a: "\<And>a. Table (requests st' a) = Table (requests st1 a)"
      using f2[THEN conjunct1] by (rule spec)
    note f2b = f2[THEN conjunct2, THEN conjunct1]
    note f2c = f2[THEN conjunct2, THEN conjunct2]
    have tb: "requestTables st1 reqs = requestTables st reqs"
      by (rule requestTables_cong) (rule f1a)
    have t1: "tables1 = tables @ requestTables st [reqp]"
      using f1c True by (rule mp)
    show ?thesis
    proof (intro conjI allI impI)
      fix a show "Table (requests st' a) = Table (requests st a)"
        unfolding f2a f1a ..
    next
      assume "\<forall>f \<in> set fl. RateLimiter (fetchConfig f) = rl"
      with f1b have "\<forall>f \<in> set fl1. RateLimiter (fetchConfig f) = rl" by (rule mp)
      with f2b show "\<forall>f \<in> set fl'. RateLimiter (fetchConfig f) = rl" by (rule mp)
    next
      assume "oc = Returned None"
      with f2c have "tables' = tables1 @ requestTables st1 reqs" by (rule mp)
      then show "tables' = tables @ requestTables st (reqp # reqs)"
        unfolding t1 tb requestTables_Cons[of st reqp reqs] by simp
    qed
  next
    case False
    have c: "planRequests env cfg client rl (reqp # reqs) st fl tables = (oc1, st1, fl1, tables1)"
    proof (cases oc1)
      case (Returned x)
      with False obtain e where "x = Some e" by (cases x) auto
      with Returned p1 show ?thesis by simp
    next
      case (Panicked m)
      with p1 show ?thesis by simp
    next
      case NoReturn
      with p1 show ?thesis by simp
    qed
    from Cons.prems[unfolded c] have r: "oc = oc1" "st' = st1" "fl' = fl1" by auto
    show ?thesis unfolding r using f1a f1b False by blast
  qed
qed

section \<open>The shape of a run of Upsert\<close>

lemma Upsert_valid:
  assumes "RateLimitConfig cfg = Some rl" "RateLimitConfig.Period rl = Some p" "Burst rl = Some b"
  shows "Upsert env cfg st =
     (case connect env cfg of
        (Inl e, evs1) \<Rightarrow>
          (Returned (Some (Errorf ''unable to connect to client'' e)), st, evs1)
      | (Inr client, evs1) \<Rightarrow>
          (case repos env cfg of
             (Inl e, evs2) \<Rightarrow> (Returned (Some e), st, evs1 @ evs2)
           | (Inr rs, evs2) \<Rightarrow>
               (case planRequests env cfg client (newRateLimiter p b) (Requests cfg) st [] [] of
                  (Returned None, st', fl, tables) \<Rightarrow>
                    (case runPipeline env cfg rs fl tables of
                       (oc, evs) \<Rightarrow> (oc, st', evs1 @ evs2 @ evs))
                | (oc, st', fl, tables) \<Rightarrow> (oc, st', evs1 @ evs2))))"
  using assms
  by (simp add: Upsert_def validate_def rateLimitValidate_def Let_def
           cong: prod.case_cong sum.case_cong)

lemma Upsert_invalid:
  "validate cfg = Some e \<Longrightarrow> Upsert env cfg st = (Returned (Some e), st, [])"
  by (simp add: Upsert_def)

lemma validate_cases:
  "(\<exists>e. validate cfg = Some e) \<or>
   (\<exists>rl p b. RateLimitConfig cfg = Some rl \<and> RateLimitConfig.Period rl = Some p \<and> Burst rl = Some b)"
  by (cases "RateLimitConfig cfg")
     (auto simp: validate_def rateLimitValidate_def split: option.splits)

lemma isSetup_connect: "\<forall>e \<in> set (snd (connect env cfg)). isSetup e"
  using connect_events[of env cfg] by fastforce

lemma isSetup_NewTx: "\<forall>e \<in> set (map EvNewTx rs). isSetup e"
  by simp

text \<open>A run of \<open>Upsert\<close> either stops during set-up or planning, or reaches the pipeline.\<close>

lemma Upsert_run:
  assumes u: "Upsert env cfg st = (oc, st', tr)"
  shows "(\<forall>e \<in> set tr. isSetup e) \<or>
         (\<exists>client evs1 fl evs rl p b.
            RateLimitConfig cfg = Some rl \<and> RateLimitConfig.Period rl = Some p \<and> Burst rl = Some b
          \<and> planRequests env cfg client (newRateLimiter p b) (Requests cfg) st [] []
               = (Returned None, st', fl, requestTables st (Requests cfg))
          \<and> (\<forall>f \<in> set fl. RateLimiter (fetchConfig f) = newRateLimiter p b)
          \<and> runPipeline env cfg (backends cfg) fl (requestTables st (Requests cfg)) = (oc, evs)
          \<and> tr = evs1 @ map EvNewTx (backends cfg) @ evs
          \<and> (\<forall>e \<in> set evs1. isSetup e))"
proof -
  from validate_cases[of cfg] show ?thesis
  proof
    assume "\<exists>e. validate cfg = Some e"
    then obtain e where "validate cfg = Some e" ..
    from u[unfolded Upsert_invalid[OF this]] have "tr = []" by auto
    then show ?thesis by simp
  next
    assume "\<exists>rl p b. RateLimitConfig cfg = Some rl \<and> RateLimitConfig.Period rl = Some p \<and> Burst rl = Some b"
    then obtain rl p b where v: "RateLimitConfig cfg = Some rl" "RateLimitConfig.Period rl = Some p"
      "Burst rl = Some b" by blast
    note uv = u[unfolded Upsert_valid[OF v]]
    obtain cr evs1 where c: "connect env cfg = (cr, evs1)" by (cases "connect env cfg")
    have s1: "\<forall>e \<in> set evs1. isSetup e" using isSetup_connect[of env cfg] c by simp
    show ?thesis
    proof (cases cr)
      case (Inl e)
      with uv c have "tr = evs1" by auto
      with s1 show ?thesis by simp
    next
      case (Inr client)
      obtain rr evs2 where r: "repos env cfg = (rr, evs2)" by (cases "repos env cfg")
      from repos_events[of cfg env] obtain n where n: "n \<le> length (backends cfg) \<and>
          snd (repos env cfg) = map EvNewTx (take n (backends cfg)) \<and>
          (\<forall>rs. fst (repos env cfg) = Inr rs \<longrightarrow> n = length (backends cfg) \<and> rs = backends cfg)" ..
      have e2: "evs2 = map EvNewTx (take n (backends cfg))" using n r by simp
      have s2: "\<forall>e \<in> set evs2. isSetup e" unfolding e2 by simp
      show ?thesis
      proof (cases rr)
        case (Inl e)
        with uv c r \<open>cr = Inr client\<close> have "tr = evs1 @ evs2" by auto
        with s1 s2 show ?thesis by auto
      next
        case rs: (Inr rs)
        with n r have rs': "rs = backends cfg" "evs2 = map EvNewTx (backends cfg)"
          using e2 by auto
        obtain oc1 st1 fl tables where p:
          "planRequests env cfg client (newRateLimiter p b) (Requests cfg) st [] [] = (oc1, st1, fl, tables)"
          by (cases "planRequests env cfg client (newRateLimiter p b) (Requests cfg) st [] []")
        note pf = planRequests_frame[OF p]
        show ?thesis
        proof (cases "oc1 = Returned None")
          case True
          have tb: "tables = requestTables st (Requests cfg)"
            using pf True by simp
          have lim: "\<forall>f \<in> set fl. RateLimiter (fetchConfig f) = newRateLimiter p b"
            using pf by simp
          obtain oc2 evs where rp: "runPipeline env cfg rs fl tables = (oc2, evs)"
            by (cases "runPipeline env cfg rs fl tables")
          from uv c r \<open>cr = Inr client\<close> rs p True rp
          have "oc = oc2" "st' = st1" "tr = evs1 @ evs2 @ evs" by auto
          then show ?thesis
            using v p True tb lim rp rs' s1 by blast
        next
          case False
          have "(case (oc1, st1, fl, tables) of
                  (Returned None, st', fl, tables) \<Rightarrow>
                    (case runPipeline env cfg rs fl tables of
                       (oc, evs) \<Rightarrow> (oc, st', evs1 @ evs2 @ evs))
                | (oc, st', fl, tables) \<Rightarrow> (oc, st', evs1 @ evs2)) = (oc1, st1, evs1 @ evs2)"
            using False by (cases oc1) (auto split: option.splits)
          with uv c r \<open>cr = Inr client\<close> rs p have "tr = evs1 @ evs2" by auto
          with s1 s2 show ?thesis by auto
        qed
      qed
    qed
  qed
qed

lemma runPipeline_truncated:
  "runPipeline env cfg rs fl tables = (oc, evs) \<Longrightarrow>
   \<exists>n rest. n \<le> length rs
      \<and> evs = (if Truncate cfg then map (\<lambda>r. EvTruncate r tables) (take n rs) else []) @ rest
      \<and> (rest = [] \<and> EvStartRepositoryWorkers \<notin> set evs
          \<or> n = length rs
            \<and> (\<exists>m \<le> length rs.
                  rest = [EvStartRepositoryWorkers, EvStartWebWorkers] @ map EvEnqueue fl
                           @ map EvCommit (take m rs)
                \<and> (fl = [] \<or> Pipeline env fl rs \<longrightarrow>
                      (oc, map EvCommit (take m rs)) =
                        (case commitAll env rs of
                           (Some e, evs5) \<Rightarrow>
                             (Returned (Some (Errorf ''unable to commit transaction'' e)), evs5)
                         | (None, evs5) \<Rightarrow> (Returned None, evs5)))))"
proof -
  assume rp: "runPipeline env cfg rs fl tables = (oc, evs)"
  let ?T = "if Truncate cfg then truncateAll env rs tables else (None, [])"
  obtain tres evs3 where t: "?T = (tres, evs3)" by (cases ?T)
  from truncateAll_events[of rs env tables] obtain n where n: "n \<le> length rs \<and>
      snd (truncateAll env rs tables) = map (\<lambda>r. EvTruncate r tables) (take n rs) \<and>
      (fst (truncateAll env rs tables) = None \<longrightarrow> n = length rs)" ..
  have e3: "evs3 = (if Truncate cfg then map (\<lambda>r. EvTruncate r tables) (take n rs) else [])"
    using t n by (auto split: if_splits)
  have nl: "tres = None \<Longrightarrow> Truncate cfg \<Longrightarrow> n = length rs"
    using t n by (auto split: if_splits)
  have e3': "tres = None \<Longrightarrow>
       evs3 = (if Truncate cfg then map (\<lambda>r. EvTruncate r tables) (take (length rs) rs) else [])"
    using e3 nl by (cases "Truncate cfg") simp_all
  have ns: "EvStartRepositoryWorkers \<notin> set evs3" unfolding e3 by auto
  show ?thesis
  proof (cases tres)
    case (Some e)
    with rp t have "evs = evs3" by (auto simp: runPipeline_def)
    then show ?thesis using e3 n ns by (intro exI[of _ n] exI[of _ "[]"]) simp
  next
    case None
    let ?evs4 = "[EvStartRepositoryWorkers, EvStartWebWorkers] @ map EvEnqueue fl"
    from commitAll_events[of rs env] obtain m where m: "m \<le> length rs \<and>
      snd (commitAll env rs) = map EvCommit (take m rs)" ..
    show ?thesis
    proof (cases "fl \<noteq> [] \<and> \<not> Pipeline env fl rs")
      case True
      with rp t None have r: "oc = NoReturn" "evs = evs3 @ ?evs4"
        by (auto simp: runPipeline_def Let_def)
      show ?thesis
      proof (intro exI[of _ "length rs"] exI[of _ "?evs4"] conjI)
        show "evs = (if Truncate cfg then map (\<lambda>r. EvTruncate r tables) (take (length rs) rs) else []) @ ?evs4"
          using r e3'[OF None] by simp
        show "?evs4 = [] \<and> EvStartRepositoryWorkers \<notin> set evs \<or>
          length rs = length rs \<and>
          (\<exists>m\<le>length rs.
              ?evs4 = [EvStartRepositoryWorkers, EvStartWebWorkers] @ map EvEnqueue fl @ map EvCommit (take m rs) \<and>
              (fl = [] \<or> Pipeline env fl rs \<longrightarrow>
               (oc, map EvCommit (take m rs)) =
               (case commitAll env rs of
                (None, evs5) \<Rightarrow> (Returned None, evs5)
                | (Some e, evs5) \<Rightarrow>
                    (Returned (Some (Errorf ''unable to commit transaction'' e)), evs5))))"
          using True by (intro disjI2 conjI refl exI[of _ 0]) simp_all
      qed simp
    next
      case False
      obtain cres evs5 where c: "commitAll env rs = (cres, evs5)" by (cases "commitAll env rs")
      have e5: "evs5 = map EvCommit (take m rs)" using m c by simp
      from rp t None False c
      have r: "evs = evs3 @ ?evs4 @ evs5"
         "oc = (case cres of Some e \<Rightarrow> Returned (Some (Errorf ''unable to commit transaction'' e))
                | None \<Rightarrow> Returned None)"
        by (auto simp: runPipeline_def Let_def split: option.splits)
      show ?thesis
      proof (intro exI[of _ "length rs"] exI[of _ "?evs4 @ evs5"] conjI)
        show "evs = (if Truncate cfg then map (\<lambda>r. EvTruncate r tables) (take (length rs) rs) else [])
                 @ ?evs4 @ evs5"
          using r e3'[OF None] by simp
        show "?evs4 @ evs5 = [] \<and> EvStartRepositoryWorkers \<notin> set evs \<or>
          length rs = length rs \<and>
          (\<exists>m\<le>length rs.
              ?evs4 @ evs5 = [EvStartRepositoryWorkers, EvStartWebWorkers] @ map EvEnqueue fl @ map EvCommit (take m rs) \<and>
              (fl = [] \<or> Pipeline env fl rs \<longrightarrow>
               (oc, map EvCommit (take m rs)) =
               (case commitAll env rs of
                (None, evs5) \<Rightarrow> (Returned None, evs5)
                | (Some e, evs5) \<Rightarrow>
                    (Returned (Some (Errorf ''unable to commit transaction'' e)), evs5))))"
        proof (intro disjI2 conjI refl exI[of _ m] impI)
          show "m \<le> length rs" using m by simp
          show "?evs4 @ evs5 = [EvStartRepositoryWorkers, EvStartWebWorkers] @ map EvEnqueue fl @ map EvCommit (take m rs)"
            using e5 by simp
          show "(oc, map EvCommit (take m rs)) =
               (case commitAll env rs of
                (None, evs5) \<Rightarrow> (Returned None, evs5)
                | (Some e, evs5) \<Rightarrow>
                    (Returned (Some (Errorf ''unable to commit transaction'' e)), evs5))"
            using r(2) c e5 by (cases cres) simp_all
        qed
      qed simp
    qed
  qed
qed

lemma isSetup_not:
  "isSetup e \<Longrightarrow> \<not> isTruncate e \<and> \<not> isCommit e \<and> \<not> isRollback e \<and> e \<noteq> EvStartRepositoryWorkers
     \<and> (\<forall>f. e \<noteq> EvEnqueue f)"
  by (cases e) simp_all

lemma filter_isTruncate_setup: "\<forall>e \<in> set evs. isSetup e \<Longrightarrow> filter isTruncate evs = []"
  using isSetup_not by (induction evs) auto

lemma filter_isTruncate_map [simp]:
  "filter isTruncate (map (\<lambda>r. EvTruncate r tables) rs) = map (\<lambda>r. EvTruncate r tables) rs"
  "filter isTruncate (map EvNewTx rs) = []"
  "filter isTruncate (map EvEnqueue fl) = []"
  "filter isTruncate (map EvCommit rs) = []"
  by (induction rs) (simp_all add: filter_empty_conv)

lemma Upsert_pipeline:
  assumes u: "Upsert env cfg st = (oc, st', tr)"
  shows "(\<forall>e \<in> set tr. isSetup e) \<or>
         (\<exists>evs1 fl n rest rl p b.
            RateLimitConfig cfg = Some rl \<and> RateLimitConfig.Period rl = Some p \<and> Burst rl = Some b
          \<and> (\<forall>f \<in> set fl. RateLimiter (fetchConfig f) = newRateLimiter p b)
          \<and> (\<forall>e \<in> set evs1. isSetup e)
          \<and> n \<le> length (backends cfg)
          \<and> tr = evs1 @ map EvNewTx (backends cfg)
                 @ (if Truncate cfg
                    then map (\<lambda>r. EvTruncate r (requestTables st (Requests cfg))) (take n (backends cfg))
                    else [])
                 @ rest
          \<and> (rest = [] \<or>
              n = length (backends cfg)
              \<and> (\<exists>m \<le> length (backends cfg).
                    rest = [EvStartRepositoryWorkers, EvStartWebWorkers] @ map EvEnqueue fl
                             @ map EvCommit (take m (backends cfg))
                  \<and> (fl = [] \<or> Pipeline env fl (backends cfg) \<longrightarrow>
                        (oc, map EvCommit (take m (backends cfg))) =
                          (case commitAll env (backends cfg) of
                             (Some e, evs5) \<Rightarrow>
                               (Returned (Some (Errorf ''unable to commit transaction'' e)), evs5)
                           | (None, evs5) \<Rightarrow> (Returned None, evs5))))))"
proof -
  from Upsert_run[OF u] show ?thesis
  proof
    assume "\<forall>e \<in> set tr. isSetup e"
    then show ?thesis ..
  next
    assume "\<exists>client evs1 fl evs rl p b.
            RateLimitConfig cfg = Some rl \<and> RateLimitConfig.Period rl = Some p \<and> Burst rl = Some b
          \<and> planRequests env cfg client (newRateLimiter p b) (Requests cfg) st [] []
               = (Returned None, st', fl, requestTables st (Requests cfg))
          \<and> (\<forall>f \<in> set fl. RateLimiter (fetchConfig f) = newRateLimiter p b)
          \<and> runPipeline env cfg (backends cfg) fl (requestTables st (Requests cfg)) = (oc, evs)
          \<and> tr = evs1 @ map EvNewTx (backends cfg) @ evs
          \<and> (\<forall>e \<in> set evs1. isSetup e)"
    then obtain client evs1 fl evs rl p b where
      v: "RateLimitConfig cfg = Some rl" "RateLimitConfig.Period rl = Some p" "Burst rl = Some b"
      and lim: "\<forall>f \<in> set fl. RateLimiter (fetchConfig f) = newRateLimiter p b"
      and rp: "runPipeline env cfg (backends cfg) fl (requestTables st (Requests cfg)) = (oc, evs)"
      and tr: "tr = evs1 @ map EvNewTx (backends cfg) @ evs"
      and s1: "\<forall>e \<in> set evs1. isSetup e"
      by blast
    from runPipeline_truncated[OF rp] obtain n rest where
      n: "n \<le> length (backends cfg)"
      and evs: "evs = (if Truncate cfg
                    then map (\<lambda>r. EvTruncate r (requestTables st (Requests cfg))) (take n (backends cfg))
                    else []) @ rest"
      and rest: "rest = [] \<and> EvStartRepositoryWorkers \<notin> set evs \<or>
              n = length (backends cfg)
              \<and> (\<exists>m \<le> length (backends cfg).
                    rest = [EvStartRepositoryWorkers, EvStartWebWorkers] @ map EvEnqueue fl
                             @ map EvCommit (take m (backends cfg))
                  \<and> (fl = [] \<or> Pipeline env fl (backends cfg) \<longrightarrow>
                        (oc, map EvCommit (take m (backends cfg))) =
                          (case commitAll env (backends cfg) of
                             (Some e, evs5) \<Rightarrow>
                               (Returned (Some (Errorf ''unable to commit transaction'' e)), evs5)
                           | (None, evs5) \<Rightarrow> (Returned None, evs5))))"
      by blast
    have tr': "tr = evs1 @ map EvNewTx (backends cfg)
                 @ (if Truncate cfg
                    then map (\<lambda>r. EvTruncate r (requestTables st (Requests cfg))) (take n (backends cfg))
                    else [])
                 @ rest"
      unfolding tr evs by simp
    from rest have rest': "rest = [] \<or>
              n = length (backends cfg)
              \<and> (\<exists>m \<le> length (backends cfg).
                    rest = [EvStartRepositoryWorkers, EvStartWebWorkers] @ map EvEnqueue fl
                             @ map EvCommit (take m (backends cfg))
                  \<and> (fl = [] \<or> Pipeline env fl (backends cfg) \<longrightarrow>
                        (oc, map EvCommit (take m (backends cfg))) =
                          (case commitAll env (backends cfg) of
                             (Some e, evs5) \<Rightarrow>
                               (Returned (Some (Errorf ''unable to commit transaction'' e)), evs5)
                           | (None, evs5) \<Rightarrow> (Returned None, evs5))))"
      by blast
    show ?thesis
      by (rule disjI2, intro exI[of _ evs1] exI[of _ fl] exI[of _ n] exI[of _ rest]
                exI[of _ rl] exI[of _ p] exI[of _ b] conjI)
         (fact v lim s1 n tr' rest')+
  qed
qed

lemma Upsert_cases:
  assumes u: "Upsert env cfg st = (oc, st', tr)"
  obtains (early) "\<forall>e \<in> set tr. isSetup e"
  | (pipeline) evs1 fl n rest rl p b where
      "RateLimitConfig cfg = Some rl" "RateLimitConfig.Period rl = Some p" "Burst rl = Some b"
      "\<forall>f \<in> set fl. RateLimiter (fetchConfig f) = newRateLimiter p b"
      "\<forall>e \<in> set evs1. isSetup e"
      "n \<le> length (backends cfg)"
      "tr = evs1 @ map EvNewTx (backends cfg)
                 @ (if Truncate cfg
                    then map (\<lambda>r. EvTruncate r (requestTables st (Requests cfg))) (take n (backends cfg))
                    else [])
                 @ rest"
      "rest = [] \<or>
              n = length (backends cfg)
              \<and> (\<exists>m \<le> length (backends cfg).
                    rest = [EvStartRepositoryWorkers, EvStartWebWorkers] @ map EvEnqueue fl
                             @ map EvCommit (take m (backends cfg))
                  \<and> (fl = [] \<or> Pipeline env fl (backends cfg) \<longrightarrow>
                        (oc, map EvCommit (take m (backends cfg))) =
                          (case commitAll env (backends cfg) of
                             (Some e, evs5) \<Rightarrow>
                               (Returned (Some (Errorf ''unable to commit transaction'' e)), evs5)
                           | (None, evs5) \<Rightarrow> (Returned None, evs5))))"
proof -
  from Upsert_pipeline[OF u] show thesis
  proof (rule disjE, goal_cases)
    case 1
    then show ?case by (rule early)
  next
    case 2
    then show ?case by (elim exE conjE) (rule pipeline; assumption)
  qed
qed

text \<open>
  Claim C4, as amended.  With \<open>truncate\<close> set, the truncations of a run of
  \<open>Upsert\<close> are one \<open>Truncate\<close> call for each repository of an initial part of the
  DNS list, in that order, every call carrying the same list: the tables of the requests
  in request order, a table once for every request that names it.  When the worker pools
  are started, every repository has received exactly one such call, all of them after
  set-up and before the start of the pools, and none follows.
\<close>

theorem Upsert_truncate:
  assumes t: "Truncate cfg" and u: "Upsert env cfg st = (oc, st', tr)"
  shows "(\<exists>n \<le> length (backends cfg).
            filter isTruncate tr =
              map (\<lambda>r. EvTruncate r (requestTables st (Requests cfg))) (take n (backends cfg)))
       \<and> (EvStartRepositoryWorkers \<in> set tr \<longrightarrow>
            (\<exists>pre post.
               tr = pre @ map (\<lambda>r. EvTruncate r (requestTables st (Requests cfg))) (backends cfg)
                      @ EvStartRepositoryWorkers # post
             \<and> (\<forall>e \<in> set pre. isSetup e)
             \<and> (\<forall>e \<in> set post. \<not> isTruncate e)))"
proof -
  let ?T = "requestTables st (Requests cfg)"
  let ?bs = "backends cfg"
  from u show ?thesis
  proof (cases rule: Upsert_cases)
    case early
    then have f: "filter isTruncate tr = []" by (rule filter_isTruncate_setup)
    have "EvStartRepositoryWorkers \<notin> set tr" using early isSetup_not by blast
    moreover have "\<exists>n \<le> length ?bs. filter isTruncate tr = map (\<lambda>r. EvTruncate r ?T) (take n ?bs)"
      using f by (intro exI[of _ 0]) simp
    ultimately show ?thesis by blast
  next
    case (pipeline evs1 fl n rest rl p b)
    note s1 = pipeline(5) and n = pipeline(6)
    have tr: "tr = evs1 @ map EvNewTx ?bs @ map (\<lambda>r. EvTruncate r ?T) (take n ?bs) @ rest"
      using pipeline(7) t by simp
    have f1: "filter isTruncate evs1 = []" using s1 by (rule filter_isTruncate_setup)
    from pipeline(8) show ?thesis
    proof
      assume r: "rest = []"
      have f: "filter isTruncate tr = map (\<lambda>r. EvTruncate r ?T) (take n ?bs)"
        unfolding tr r by (simp add: f1)
      have "EvStartRepositoryWorkers \<notin> set tr"
        unfolding tr r using s1 isSetup_not by auto
      then show ?thesis using f n by blast
    next
      assume "n = length ?bs
              \<and> (\<exists>m \<le> length ?bs.
                    rest = [EvStartRepositoryWorkers, EvStartWebWorkers] @ map EvEnqueue fl
                             @ map EvCommit (take m ?bs)
                  \<and> (fl = [] \<or> Pipeline env fl ?bs \<longrightarrow>
                        (oc, map EvCommit (take m ?bs)) =
                          (case commitAll env ?bs of
                             (Some e, evs5) \<Rightarrow>
                               (Returned (Some (Errorf ''unable to commit transaction'' e)), evs5)
                           | (None, evs5) \<Rightarrow> (Returned None, evs5))))"
      then obtain m where nl: "n = length ?bs"
        and r: "rest = [EvStartRepositoryWorkers, EvStartWebWorkers] @ map EvEnqueue fl
                             @ map EvCommit (take m ?bs)"
        by blast
      let ?pre = "evs1 @ map EvNewTx ?bs"
      let ?post = "EvStartWebWorkers # map EvEnqueue fl @ map EvCommit (take m ?bs)"
      have tr': "tr = ?pre @ map (\<lambda>r. EvTruncate r ?T) ?bs @ EvStartRepositoryWorkers # ?post"
        unfolding tr r nl by simp
      have f: "filter isTruncate tr = map (\<lambda>r. EvTruncate r ?T) (take n ?bs)"
        unfolding tr r by (simp add: f1)
      have pre: "\<forall>e \<in> set ?pre. isSetup e" using s1 by auto
      have post: "\<forall>e \<in> set ?post. \<not> isTruncate e" by auto
      show ?thesis using f n tr' pre post by blast
    qed
  qed
qed

section \<open>Commits and the rate limiter\<close>

lemma sdiv_whole_seconds: "Second \<le> p \<Longrightarrow> 0 < p sdiv Second"
  by (simp add: signed_divide_int_def Second_def sgn_if pos_imp_zdiv_pos_iff)

lemma sdiv_not_positive: "p \<le> 0 \<Longrightarrow> p sdiv Second \<le> 0"
proof -
  assume np: "p \<le> 0"
  then have "0 \<le> (- p) div 1000000000" by (simp add: pos_imp_zdiv_nonneg_iff)
  then show ?thesis using np by (simp add: signed_divide_int_def Second_def sgn_if)
qed

text \<open>
  Claim C5, as amended.  Take a run of \<open>Upsert\<close> that started the worker pools, in a
  setting where the workers finish their jobs.  \<open>Upsert\<close> returns.  The commits are the
  last calls of the run and are the commits of an initial part of the DNS list, in that
  order; no rollback is called.  When the commit of the repository at position k fails
  with a cause and the earlier ones succeed, \<open>Upsert\<close> returns the error with the
  message \<open>unable to commit transaction\<close> that wraps this cause and nothing else (it
  does not tell which repository failed), and the commits are those of positions 0 to k
  and no other.  When every commit succeeds, \<open>Upsert\<close> returns nil after committing
  every repository.
\<close>

theorem Upsert_commit:
  assumes u: "Upsert env cfg st = (oc, st', tr)"
    and started: "EvStartRepositoryWorkers \<in> set tr"
    and ret: "\<forall>fl. Pipeline env fl (backends cfg)"
  shows "\<exists>pre. (\<forall>e \<in> set pre. \<not> isCommit e) \<and> (\<forall>e \<in> set tr. \<not> isRollback e)
     \<and> (\<exists>m \<le> length (backends cfg). tr = pre @ map EvCommit (take m (backends cfg)))
     \<and> (\<exists>res. oc = Returned res)
     \<and> (\<forall>k cause. k < length (backends cfg)
            \<and> (\<forall>j<k. CommitTx env (backends cfg ! j) = None)
            \<and> CommitTx env (backends cfg ! k) = Some cause \<longrightarrow>
          oc = Returned (Some (Errorf ''unable to commit transaction'' cause))
          \<and> tr = pre @ map EvCommit (take (Suc k) (backends cfg)))
     \<and> ((\<forall>r \<in> set (backends cfg). CommitTx env r = None) \<longrightarrow>
          oc = Returned None \<and> tr = pre @ map EvCommit (backends cfg))"
proof -
  let ?T = "requestTables st (Requests cfg)"
  let ?bs = "backends cfg"
  from u show ?thesis
  proof (cases rule: Upsert_cases)
    case early
    with started isSetup_not have False by blast
    then show ?thesis ..
  next
    case (pipeline evs1 fl n rest rl p b)
    note s1 = pipeline(5)
    let ?tc = "if Truncate cfg then map (\<lambda>r. EvTruncate r ?T) (take n ?bs) else []"
    have tr: "tr = evs1 @ map EvNewTx ?bs @ ?tc @ rest" by (rule pipeline(7))
    have ns: "EvStartRepositoryWorkers \<notin> set (evs1 @ map EvNewTx ?bs @ ?tc)"
      using s1 isSetup_not by auto
    have "rest \<noteq> []" using started ns unfolding tr by auto
    with pipeline(8) ret obtain m where m: "m \<le> length ?bs"
      and r: "rest = [EvStartRepositoryWorkers, EvStartWebWorkers] @ map EvEnqueue fl
                             @ map EvCommit (take m ?bs)"
      and c: "(oc, map EvCommit (take m ?bs)) =
                          (case commitAll env ?bs of
                             (Some e, evs5) \<Rightarrow>
                               (Returned (Some (Errorf ''unable to commit transaction'' e)), evs5)
                           | (None, evs5) \<Rightarrow> (Returned None, evs5))"
      by blast
    let ?pre = "evs1 @ map EvNewTx ?bs @ ?tc @ [EvStartRepositoryWorkers, EvStartWebWorkers]
                  @ map EvEnqueue fl"
    have tr': "tr = ?pre @ map EvCommit (take m ?bs)" unfolding tr r by simp
    have a: "\<forall>e \<in> set ?pre. \<not> isCommit e" using s1 isSetup_not by auto
    have b: "\<forall>e \<in> set tr. \<not> isRollback e" unfolding tr' using s1 isSetup_not by auto
    have d: "\<exists>m \<le> length ?bs. tr = ?pre @ map EvCommit (take m ?bs)" using m tr' by blast
    have e: "\<forall>k cause. k < length ?bs \<and> (\<forall>j<k. CommitTx env (?bs ! j) = None)
            \<and> CommitTx env (?bs ! k) = Some cause \<longrightarrow>
          oc = Returned (Some (Errorf ''unable to commit transaction'' cause))
          \<and> tr = ?pre @ map EvCommit (take (Suc k) ?bs)"
    proof (intro allI impI)
      fix k cause
      assume h: "k < length ?bs \<and> (\<forall>j<k. CommitTx env (?bs ! j) = None)
            \<and> CommitTx env (?bs ! k) = Some cause"
      then have "commitAll env ?bs = (Some cause, map EvCommit (take (Suc k) ?bs))"
        by (intro commitAll_fail) blast+
      with c have "oc = Returned (Some (Errorf ''unable to commit transaction'' cause))"
        "map EvCommit (take m ?bs) = map EvCommit (take (Suc k) ?bs)" by simp_all
      then show "oc = Returned (Some (Errorf ''unable to commit transaction'' cause))
          \<and> tr = ?pre @ map EvCommit (take (Suc k) ?bs)"
        unfolding tr' by simp
    qed
    have f: "(\<forall>r \<in> set ?bs. CommitTx env r = None) \<longrightarrow>
          oc = Returned None \<and> tr = ?pre @ map EvCommit ?bs"
    proof
      assume "\<forall>r \<in> set ?bs. CommitTx env r = None"
      then have "commitAll env ?bs = (None, map EvCommit ?bs)" by (rule commitAll_ok)
      with c have "oc = Returned None" "map EvCommit (take m ?bs) = map EvCommit ?bs" by simp_all
      then show "oc = Returned None \<and> tr = ?pre @ map EvCommit ?bs" unfolding tr' by simp
    qed
    have g: "\<exists>res. oc = Returned res"
      using c by (cases "commitAll env ?bs") (auto split: option.splits)
    show ?thesis
      by (rule exI[of _ ?pre]) (intro conjI a b d g e f)
  qed
qed

text \<open>
  Claim C1, as amended.  For a configuration with burst \<open>b\<close> and period \<open>p\<close>, every job
  that \<open>Upsert\<close> hands to the web workers carries the same limiter.  Its burst capacity
  is \<open>b\<close>.  Its limit is \<open>Every d\<close> for an interval \<open>d\<close> that is computed from the
  period alone, whatever the burst: for a period of one second or more \<open>d\<close> is positive
  and the limit is one event per \<open>d\<close>; for a period that is not positive \<open>d\<close> is not
  positive either and the limit is infinite.
\<close>

theorem Upsert_rate_limiter:
  assumes v: "RateLimitConfig cfg = Some rl" "RateLimitConfig.Period rl = Some p" "Burst rl = Some b"
    and u: "Upsert env cfg st = (oc, st', tr)"
  shows "(\<forall>f. EvEnqueue f \<in> set tr \<longrightarrow> RateLimiter (fetchConfig f) = newRateLimiter p b)
       \<and> (\<exists>d. (\<forall>b'. newRateLimiter p b' = \<lparr>limit = Every d, burst = b'\<rparr>)
              \<and> (Second \<le> p \<longrightarrow> 0 < d \<and> Every d = OnePer d)
              \<and> (p \<le> 0 \<longrightarrow> d \<le> 0 \<and> Every d = Inf))"
proof -
  have a: "\<forall>b'. newRateLimiter p b' = \<lparr>limit = Every (p sdiv Second), burst = b'\<rparr>"
    by (simp add: newRateLimiter_def NewLimiter_def Let_def)
  have c1: "Second \<le> p \<longrightarrow> 0 < p sdiv Second \<and> Every (p sdiv Second) = OnePer (p sdiv Second)"
    using sdiv_whole_seconds[of p] by (auto simp: Every_def)
  have c2: "p \<le> 0 \<longrightarrow> p sdiv Second \<le> 0 \<and> Every (p sdiv Second) = Inf"
    using sdiv_not_positive[of p] by (auto simp: Every_def)
  from a c1 c2 have c: "\<exists>d. (\<forall>b'. newRateLimiter p b' = \<lparr>limit = Every d, burst = b'\<rparr>)
              \<and> (Second \<le> p \<longrightarrow> 0 < d \<and> Every d = OnePer d)
              \<and> (p \<le> 0 \<longrightarrow> d \<le> 0 \<and> Every d = Inf)"
    by (intro exI[of _ "p sdiv Second"] conjI)
  have d: "\<forall>f. EvEnqueue f \<in> set tr \<longrightarrow> RateLimiter (fetchConfig f) = newRateLimiter p b"
    using u
  proof (cases rule: Upsert_cases)
    case early
    then show ?thesis using isSetup_not by blast
  next
    case (pipeline evs1 fl n rest rl' p' b')
    from pipeline(1,2,3) v have pb: "p' = p" "b' = b" by simp_all
    note lim = pipeline(4)[unfolded pb]
    note s1 = pipeline(5)
    show ?thesis
    proof (intro allI impI)
      fix f assume "EvEnqueue f \<in> set tr"
      then have "EvEnqueue f \<in> set rest"
        unfolding pipeline(7) using s1 isSetup_not by (auto split: if_splits)
      with pipeline(8) have "f \<in> set fl" by auto
      with lim show "RateLimiter (fetchConfig f) = newRateLimiter p b" by blast
    qed
  qed
  from d c show ?thesis by (intro conjI)
qed

section \<open>Validation, and runs on the sample data\<close>

lemmas demo_defs = demoEnv_def demoConfig_def demoStore_def demoRequest_def demoCandles_def
  sharedTableConfig_def zeroRateConfig_def demoFlattened_def

lemmas upsert_defs = Upsert_def validate_def rateLimitValidate_def connect_def repos_def
  planRequest_def newFetchConfig_def defaultMethod_def addTable_def runPipeline_def overlay_def

lemma demo_run:
  "Upsert demoEnv demoConfig demoStore =
     (Returned None, demoStore,
      [EvNewTx (0, ''mongodb://a''), EvNewTx (1, ''postgresql://b''),
       EvStartRepositoryWorkers, EvStartWebWorkers, EvEnqueue (demoFlattened ''/v1/x''),
       EvCommit (0, ''mongodb://a''), EvCommit (1, ''postgresql://b'')])"
  by (simp add: upsert_defs demo_defs Let_def)

lemma failing_run:
  "Upsert failingCommitEnv demoConfig demoStore =
     (Returned (Some (Errorf ''unable to commit transaction'' (External ''commit failed''))),
      demoStore,
      [EvNewTx (0, ''mongodb://a''), EvNewTx (1, ''postgresql://b''),
       EvStartRepositoryWorkers, EvStartWebWorkers, EvEnqueue (demoFlattened ''/v1/x''),
       EvCommit (0, ''mongodb://a''), EvCommit (1, ''postgresql://b'')])"
  by (simp add: upsert_defs demo_defs failingCommitEnv_def Let_def)

lemma first_failing_run:
  "Upsert firstCommitFailsEnv demoConfig demoStore =
     (Returned (Some (Errorf ''unable to commit transaction'' (External ''commit failed''))),
      demoStore,
      [EvNewTx (0, ''mongodb://a''), EvNewTx (1, ''postgresql://b''),
       EvStartRepositoryWorkers, EvStartWebWorkers, EvEnqueue (demoFlattened ''/v1/x''),
       EvCommit (0, ''mongodb://a'')])"
  by (simp add: upsert_defs demo_defs firstCommitFailsEnv_def Let_def)

lemma burst20_run:
  "Upsert demoEnv burst20Config demoStore =
     (Returned None, demoStore,
      [EvNewTx (0, ''mongodb://a''), EvNewTx (1, ''postgresql://b''),
       EvStartRepositoryWorkers, EvStartWebWorkers,
       EvEnqueue ((demoFlattened ''/v1/x'')\<lparr>fetchConfig :=
          (fetchConfig (demoFlattened ''/v1/x''))\<lparr>RateLimiter := newRateLimiter Second 20\<rparr>\<rparr>),
       EvCommit (0, ''mongodb://a''), EvCommit (1, ''postgresql://b'')])"
  by (simp add: upsert_defs demo_defs burst20Config_def Let_def)

lemma shared_run:
  "Upsert demoEnv sharedTableConfig demoStore =
     (Returned None, demoStore,
      [EvNewTx (0, ''mongodb://a''), EvNewTx (1, ''postgresql://b''),
       EvTruncate (0, ''mongodb://a'') [''x'', ''x''],
       EvTruncate (1, ''postgresql://b'') [''x'', ''x''],
       EvStartRepositoryWorkers, EvStartWebWorkers,
       EvEnqueue (demoFlattened ''/v1/x''), EvEnqueue (demoFlattened ''/v1/y''),
       EvCommit (0, ''mongodb://a''), EvCommit (1, ''postgresql://b'')])"
  by (simp add: upsert_defs demo_defs Let_def)

lemma zero_run:
  "Upsert demoEnv zeroRateConfig demoStore =
     (Returned None, demoStore,
      [EvNewTx (0, ''mongodb://a''), EvNewTx (1, ''postgresql://b''),
       EvStartRepositoryWorkers, EvStartWebWorkers,
       EvEnqueue ((demoFlattened ''/v1/x'')\<lparr>fetchConfig :=
          (fetchConfig (demoFlattened ''/v1/x''))\<lparr>RateLimiter := \<lparr>limit = Inf, burst = 0\<rparr>\<rparr>\<rparr>),
       EvCommit (0, ''mongodb://a''), EvCommit (1, ''postgresql://b'')])"
  by (simp add: upsert_defs demo_defs Let_def newRateLimiter_def NewLimiter_def Every_def Second_def)

lemma demo_backends: "backends demoConfig = [(0, ''mongodb://a''), (1, ''postgresql://b'')]"
  "backends sharedTableConfig = [(0, ''mongodb://a''), (1, ''postgresql://b'')]"
  by (simp_all add: backends_def demoConfig_def sharedTableConfig_def upt_rec)

text \<open>
  Claim C6.  When the configuration has no rate limit, \<open>Upsert\<close> returns the
  missing-field error for \<open>rateLimit\<close>; it has made no call (no client, no transaction,
  no worker) and has changed nothing in the store.
\<close>

theorem Upsert_missing_rateLimit:
  "RateLimitConfig cfg = None \<Longrightarrow>
   Upsert env cfg st = (Returned (Some (MissingConfigFieldError ''rateLimit'')), st, [])"
  by (simp add: Upsert_def validate_def)

theorem Upsert_missing_rateLimit_witness:
  "Upsert demoEnv (demoConfig\<lparr>RateLimitConfig := None\<rparr>) demoStore =
     (Returned (Some (MissingConfigFieldError ''rateLimit'')), demoStore, [])"
  using Upsert_missing_rateLimit[of "demoConfig\<lparr>RateLimitConfig := None\<rparr>" demoEnv demoStore]
  by simp

text \<open>
  Claim C3, as amended.  When the rate limit is present and its burst or its period is
  absent, \<open>Upsert\<close> returns the invalid-rate-limit error before any call and without a
  change of the store; validation accepts a present rate limit exactly when both fields
  are present, whatever their values.
\<close>

theorem Upsert_invalid_rateLimit:
  "RateLimitConfig cfg = Some rl \<Longrightarrow>
     (Burst rl = None \<or> RateLimitConfig.Period rl = None \<longrightarrow>
        Upsert env cfg st = (Returned (Some ErrInvalidRateLimit), st, []))
   \<and> (validate cfg = None \<longleftrightarrow> Burst rl \<noteq> None \<and> RateLimitConfig.Period rl \<noteq> None)"
  by (auto simp: Upsert_def validate_def rateLimitValidate_def split: option.splits)

theorem Upsert_invalid_rateLimit_witness:
  "Upsert demoEnv (demoConfig\<lparr>RateLimitConfig :=
       Some \<lparr>Burst = None, RateLimitConfig.Period = Some Second\<rparr>\<rparr>) demoStore =
     (Returned (Some ErrInvalidRateLimit), demoStore, [])"
  using Upsert_invalid_rateLimit[of "demoConfig\<lparr>RateLimitConfig :=
       Some \<lparr>Burst = None, RateLimitConfig.Period = Some Second\<rparr>\<rparr>"
       "\<lparr>Burst = None, RateLimitConfig.Period = Some Second\<rparr>" demoEnv demoStore]
  by simp

text \<open>
  Claim C3 as stated fails: a rate limit with burst 0 and period 0 is accepted, and
  \<open>Upsert\<close> runs to the commits of both repositories.
\<close>

theorem Upsert_accepts_zero_rateLimit:
  "RateLimitConfig zeroRateConfig = Some \<lparr>Burst = Some 0, RateLimitConfig.Period = Some 0\<rparr>
   \<and> validate zeroRateConfig = None
   \<and> fst (Upsert demoEnv zeroRateConfig demoStore) = Returned None
   \<and> fst (Upsert demoEnv zeroRateConfig demoStore) \<noteq> Returned (Some ErrInvalidRateLimit)
   \<and> commits (snd (snd (Upsert demoEnv zeroRateConfig demoStore))) =
        [(0, ''mongodb://a''), (1, ''postgresql://b'')]"
  unfolding zero_run
  by (simp add: zeroRateConfig_def demoConfig_def validate_def rateLimitValidate_def)

theorem Upsert_truncate_witness:
  "Truncate sharedTableConfig
   \<and> filter isTruncate (snd (snd (Upsert demoEnv sharedTableConfig demoStore))) =
       [EvTruncate (0, ''mongodb://a'') [''x'', ''x''],
        EvTruncate (1, ''postgresql://b'') [''x'', ''x'']]"
proof -
  have t: "Truncate sharedTableConfig" by (simp add: sharedTableConfig_def)
  have u: "Upsert demoEnv sharedTableConfig demoStore =
             (fst (Upsert demoEnv sharedTableConfig demoStore),
              fst (snd (Upsert demoEnv sharedTableConfig demoStore)),
              snd (snd (Upsert demoEnv sharedTableConfig demoStore)))" by simp
  have s: "EvStartRepositoryWorkers \<in> set (snd (snd (Upsert demoEnv sharedTableConfig demoStore)))"
    unfolding shared_run by simp
  have T: "requestTables demoStore (Requests sharedTableConfig) = [''x'', ''x'']"
    by (simp add: requestTables_def sharedTableConfig_def demoStore_def demoRequest_def)
  from Upsert_truncate[OF t u] s obtain pre post where
    tr: "snd (snd (Upsert demoEnv sharedTableConfig demoStore)) =
           pre @ map (\<lambda>r. EvTruncate r (requestTables demoStore (Requests sharedTableConfig)))
                   (backends sharedTableConfig) @ EvStartRepositoryWorkers # post"
    and pre: "\<forall>e \<in> set pre. isSetup e" and post: "\<forall>e \<in> set post. \<not> isTruncate e"
    by blast
  have "filter isTruncate pre = []" using pre by (rule filter_isTruncate_setup)
  moreover have "filter isTruncate post = []" using post by (simp add: filter_empty_conv)
  ultimately have "filter isTruncate (snd (snd (Upsert demoEnv sharedTableConfig demoStore))) =
      map (\<lambda>r. EvTruncate r (requestTables demoStore (Requests sharedTableConfig)))
                   (backends sharedTableConfig)"
    unfolding tr by simp
  then show ?thesis using t unfolding T demo_backends by simp
qed

text \<open>
  Claim C4 as stated fails: two requests that name the table \<open>x\<close> make \<open>Upsert\<close>
  send each repository a truncation that lists \<open>x\<close> twice.
\<close>

theorem Upsert_truncates_shared_table_twice:
  "truncations (snd (snd (Upsert demoEnv sharedTableConfig demoStore))) =
     [((0, ''mongodb://a''), [''x'', ''x'']), ((1, ''postgresql://b''), [''x'', ''x''])]
   \<and> count_list [''x'', ''x''] ''x'' = 2"
  unfolding shared_run by simp

text \<open>
  Claim C5 as stated fails: the error that \<open>Upsert\<close> returns does not tell which
  repository failed.  When the commit of the first repository fails, \<open>Upsert\<close> returns
  the very error it returns when the commit of the second one fails.
\<close>

theorem Upsert_commit_error_names_no_backend:
  "fst (Upsert firstCommitFailsEnv demoConfig demoStore) =
     Returned (Some (Errorf ''unable to commit transaction'' (External ''commit failed'')))
   \<and> fst (Upsert failingCommitEnv demoConfig demoStore) =
       fst (Upsert firstCommitFailsEnv demoConfig demoStore)
   \<and> commits (snd (snd (Upsert firstCommitFailsEnv demoConfig demoStore))) =
       [(0, ''mongodb://a'')]
   \<and> commits (snd (snd (Upsert failingCommitEnv demoConfig demoStore))) =
       [(0, ''mongodb://a''), (1, ''postgresql://b'')]"
  unfolding first_failing_run failing_run by simp

theorem Upsert_commit_witness:
  "fst (Upsert failingCommitEnv demoConfig demoStore) =
     Returned (Some (Errorf ''unable to commit transaction'' (External ''commit failed'')))
   \<and> commits (snd (snd (Upsert failingCommitEnv demoConfig demoStore))) =
       [(0, ''mongodb://a''), (1, ''postgresql://b'')]"
proof -
  let ?U = "Upsert failingCommitEnv demoConfig demoStore"
  have u: "?U = (fst ?U, fst (snd ?U), snd (snd ?U))" by simp
  have s: "EvStartRepositoryWorkers \<in> set (snd (snd ?U))" unfolding failing_run by simp
  have r: "\<forall>fl. Pipeline failingCommitEnv fl (backends demoConfig)"
    by (simp add: failingCommitEnv_def demoEnv_def)
  have c0: "\<forall>j<1. CommitTx failingCommitEnv (backends demoConfig ! j) = None"
    unfolding demo_backends by (simp add: failingCommitEnv_def)
  have c1: "CommitTx failingCommitEnv (backends demoConfig ! 1) = Some (External ''commit failed'')"
    unfolding demo_backends by (simp add: failingCommitEnv_def)
  have k: "1 < length (backends demoConfig)" unfolding demo_backends by simp
  from Upsert_commit[OF u s r] obtain pre where
    nc: "\<forall>e \<in> set pre. \<not> isCommit e"
    and a: "\<forall>k cause. k < length (backends demoConfig)
            \<and> (\<forall>j<k. CommitTx failingCommitEnv (backends demoConfig ! j) = None)
            \<and> CommitTx failingCommitEnv (backends demoConfig ! k) = Some cause \<longrightarrow>
          fst ?U = Returned (Some (Errorf ''unable to commit transaction'' cause))
          \<and> snd (snd ?U) = pre @ map EvCommit (take (Suc k) (backends demoConfig))"
    by blast
  from a k c0 c1 have b: "fst ?U = Returned (Some (Errorf ''unable to commit transaction'' (External ''commit failed'')))"
    and tr: "snd (snd ?U) = pre @ map EvCommit (take (Suc 1) (backends demoConfig))"
    by blast+
  have "commits pre = []" using nc
  proof (induction pre)
    case Nil
    then show ?case by simp
  next
    case (Cons e pre)
    then show ?case by (cases e) simp_all
  qed
  moreover have "\<And>xs ys. commits (xs @ ys) = commits xs @ commits ys"
  proof -
    fix xs ys show "commits (xs @ ys) = commits xs @ commits ys"
    proof (induction xs)
      case Nil
      then show ?case by simp
    next
      case (Cons e xs)
      then show ?case by (cases e) simp_all
    qed
  qed
  ultimately have "commits (snd (snd ?U)) = [(0, ''mongodb://a''), (1, ''postgresql://b'')]"
    unfolding tr demo_backends by simp
  with b show ?thesis by simp
qed

theorem Upsert_rate_limiter_witness:
  "RateLimiter (fetchConfig (demoFlattened ''/v1/x'')) = newRateLimiter Second 10
   \<and> burst (newRateLimiter Second 10) = 10
   \<and> limit (newRateLimiter Second 3) = limit (newRateLimiter Second 10)"
proof -
  let ?U = "Upsert demoEnv demoConfig demoStore"
  have v: "RateLimitConfig demoConfig = Some \<lparr>Burst = Some 10, RateLimitConfig.Period = Some Second\<rparr>"
    "RateLimitConfig.Period \<lparr>Burst = Some 10, RateLimitConfig.Period = Some Second\<rparr> = Some Second"
    "Burst \<lparr>Burst = Some 10, RateLimitConfig.Period = Some Second\<rparr> = Some 10"
    by (simp_all add: demoConfig_def)
  have u: "?U = (fst ?U, fst (snd ?U), snd (snd ?U))" by simp
  have e: "EvEnqueue (demoFlattened ''/v1/x'') \<in> set (snd (snd ?U))" unfolding demo_run by simp
  from Upsert_rate_limiter[OF v u] e
  have a: "RateLimiter (fetchConfig (demoFlattened ''/v1/x'')) = newRateLimiter Second 10" by blast
  from Upsert_rate_limiter[OF v u] obtain d
    where d: "\<forall>b'. newRateLimiter Second b' = \<lparr>limit = Every d, burst = b'\<rparr>" by blast
  from d have "burst (newRateLimiter Second 10) = 10"
    "limit (newRateLimiter Second 3) = limit (newRateLimiter Second 10)" by simp_all
  with a show ?thesis by simp
qed

text \<open>
  Claim C1 as stated fails: the limit does not depend on the burst.  With a period of one
  second, the jobs of a run with burst 10 and those of a run with burst 20 carry limiters
  of the same limit, where the specification has the rates 10 and 20.
\<close>

theorem Upsert_limit_ignores_burst:
  "map burst (enqueuedLimiters (snd (snd (Upsert demoEnv demoConfig demoStore)))) = [10]
   \<and> map burst (enqueuedLimiters (snd (snd (Upsert demoEnv burst20Config demoStore)))) = [20]
   \<and> map limit (enqueuedLimiters (snd (snd (Upsert demoEnv demoConfig demoStore)))) =
       map limit (enqueuedLimiters (snd (snd (Upsert demoEnv burst20Config demoStore))))
   \<and> specRate Second 10 = 10 \<and> specRate Second 20 = 20"
  unfolding demo_run burst20_run
  by (simp add: demoFlattened_def newRateLimiter_def NewLimiter_def specRate_def Second_def)

section \<open>Timeseries expansion: the chunk loop\<close>

lemma chunkQuery_again:
  "chunkQuery env ts (chunkQuery env ts m c) c' = chunkQuery env ts m c'"
  by (auto simp: chunkQuery_def fun_eq_iff)

lemma setQuery_twice:
  "setQuery (setQuery st qa (StartName ts) (FormatTime env (layoutOf ts) (fst c))) qa
      (EndName ts) (FormatTime env (layoutOf ts) (snd c))
   = st\<lparr>queries := (queries st)(qa := chunkQuery env ts (queries st qa) c)\<rparr>"
  by (simp add: setQuery_def chunkQuery_def)

lemma newFetchConfig_query:
  assumes "Query (requests st req) = Some qa"
    and "JoinPath env (Config.URL cfg) (Endpoint (requests st req)) = Inr raw"
    and "ParseURL env raw = Inr uri"
  shows "newFetchConfig env cfg st req client rl =
           Inr \<lparr>C = client, Method = Request.Method (requests st req),
                URL = uri\<lparr>RawQuery := overlay (queries st qa) (RawQuery uri)\<rparr>,
                RateLimiter = rl\<rparr>"
  using assms by (simp add: newFetchConfig_def Let_def)

lemma chunkRequests_closed:
  assumes q: "Query (requests st req) = Some qa"
    and j: "JoinPath env (Config.URL cfg) (Endpoint (requests st req)) = Inr raw"
    and pu: "ParseURL env raw = Inr uri"
  shows "chunkRequests env cfg req tsa client rl cs st fl =
   (Returned None,
    (if cs = [] then st
     else st\<lparr>queries := (queries st)(qa := chunkQuery env (series st tsa) (queries st qa) (last cs))\<rparr>),
    fl @ map (chunkFlattened env (series st tsa) (queries st qa) client rl (requests st req) uri) cs)"
  using q j pu
proof (induction cs arbitrary: st fl)
  case Nil
  then show ?case by simp
next
  case (Cons c cs)
  let ?ts = "series st tsa"
  let ?m = "queries st qa"
  let ?st2 = "st\<lparr>queries := (queries st)(qa := chunkQuery env ?ts ?m c)\<rparr>"
  have r2: "requests ?st2 = requests st" "series ?st2 = series st"
    "queries ?st2 qa = chunkQuery env ?ts ?m c" by simp_all
  have q2: "Query (requests ?st2 req) = Some qa" using Cons.prems(1) by simp
  have j2: "JoinPath env (Config.URL cfg) (Endpoint (requests ?st2 req)) = Inr raw"
    using Cons.prems(2) by simp
  have nf: "newFetchConfig env cfg ?st2 req client rl =
              Inr (fetchConfig (chunkFlattened env ?ts ?m client rl (requests st req) uri c))"
    using newFetchConfig_query[OF q2 j2 Cons.prems(3), of client rl]
    by (simp add: chunkFlattened_def)
  have tb: "\<lparr>fetchConfig = fetchConfig (chunkFlattened env ?ts ?m client rl (requests st req) uri c),
             table = Table (requests ?st2 req)\<rparr>
            = chunkFlattened env ?ts ?m client rl (requests st req) uri c"
    by (simp add: chunkFlattened_def)
  have step: "chunkRequests env cfg req tsa client rl (c # cs) st fl =
              chunkRequests env cfg req tsa client rl cs ?st2
                (fl @ [chunkFlattened env ?ts ?m client rl (requests st req) uri c])"
    using Cons.prems(1) nf tb by (simp add: Let_def setQuery_twice)
  have ih: "chunkRequests env cfg req tsa client rl cs ?st2
                (fl @ [chunkFlattened env ?ts ?m client rl (requests st req) uri c]) =
     (Returned None,
      (if cs = [] then ?st2
       else ?st2\<lparr>queries := (queries ?st2)(qa := chunkQuery env (series ?st2 tsa) (queries ?st2 qa) (last cs))\<rparr>),
      (fl @ [chunkFlattened env ?ts ?m client rl (requests st req) uri c])
        @ map (chunkFlattened env (series ?st2 tsa) (queries ?st2 qa) client rl (requests ?st2 req) uri) cs)"
    by (rule Cons.IH[OF q2 j2 Cons.prems(3)])
  have cf: "chunkFlattened env ?ts (chunkQuery env ?ts ?m c) client rl (requests st req) uri
            = chunkFlattened env ?ts ?m client rl (requests st req) uri"
    by (rule ext) (simp add: chunkFlattened_def chunkQuery_again)
  show ?case
    unfolding step ih r2 chunkQuery_again cf
    by (cases "cs = []") simp_all
qed

lemma defaultMethod_frame:
  "Query (requests (defaultMethod st req) a) = Query (requests st a)"
  "Endpoint (requests (defaultMethod st req) a) = Endpoint (requests st a)"
  "Timeseries (requests (defaultMethod st req) a) = Timeseries (requests st a)"
  "Table (requests (defaultMethod st req) a) = Table (requests st a)"
  "queries (defaultMethod st req) = queries st"
  "series (defaultMethod st req) = series st"
  by (simp_all add: defaultMethod_def)

lemma chunkQuery_values:
  "chunkQuery env ts m c (EndName ts) = Some (FormatTime env (layoutOf ts) (snd c))"
  "StartName ts \<noteq> EndName ts \<Longrightarrow>
     chunkQuery env ts m c (StartName ts) = Some (FormatTime env (layoutOf ts) (fst c))"
  by (simp_all add: chunkQuery_def)

text \<open>
  Claim C9.  One round of the request loop for a request with a timeseries and a query
  map, when the URL is built and \<open>setChunks\<close> succeeds: the chunk loop writes through
  the pointer of the request itself, so the writes land in the map that the caller's
  request holds.  One flattened request is appended for every chunk of the timeseries,
  in order; its fetch configuration is built anew from the map as it is after the two
  writes for that chunk, so the query of its URL carries the formatted end (and start)
  of that chunk.  The request keeps its fields but for the default method, the
  timeseries holds the result of \<open>setChunks\<close>, and the map of the request ends with
  the formatted start and end of the last chunk (it is unchanged when there is no chunk).
  URLs are values here: \<open>setChunks\<close> reads the URL it is given and no statement
  writes to a URL once \<open>newFetchConfig\<close> has returned it.
\<close>

theorem planRequest_timeseries:
  assumes ts: "Timeseries (requests st req) = Some tsa"
    and q: "Query (requests st req) = Some qa"
    and j: "JoinPath env (Config.URL cfg) (Endpoint (requests st req)) = Inr raw"
    and pu: "ParseURL env raw = Inr uri"
    and sc: "setChunks (ParseTime env) (series st tsa)
               (uri\<lparr>RawQuery := overlay (queries st qa) (RawQuery uri)\<rparr>) = Some (None, ts')"
  shows "\<exists>st'.
      planRequest env cfg client rl (Some req) st fl tables =
        (Returned None, st',
         fl @ map (chunkFlattened env ts' (queries st qa) client rl
                     (requests (defaultMethod st req) req) uri) (chunks ts'),
         addTable st req tables)
    \<and> requests st' = requests (defaultMethod st req)
    \<and> series st' = (series st)(tsa := ts')
    \<and> queries st' =
        (if chunks ts' = [] then queries st
         else (queries st)(qa := chunkQuery env ts' (queries st qa) (last (chunks ts'))))
    \<and> (\<forall>c \<in> set (chunks ts').
          RawQuery (FetchConfig.URL (fetchConfig (chunkFlattened env ts' (queries st qa) client rl
                     (requests (defaultMethod st req) req) uri c))) (EndName ts')
            = [FormatTime env (layoutOf ts') (snd c)]
        \<and> (StartName ts' \<noteq> EndName ts' \<longrightarrow>
             RawQuery (FetchConfig.URL (fetchConfig (chunkFlattened env ts' (queries st qa) client rl
                     (requests (defaultMethod st req) req) uri c))) (StartName ts')
               = [FormatTime env (layoutOf ts') (fst c)]))
    \<and> (chunks ts' \<noteq> [] \<longrightarrow>
          queries st' qa (EndName ts') = Some (FormatTime env (layoutOf ts') (snd (last (chunks ts'))))
        \<and> (StartName ts' \<noteq> EndName ts' \<longrightarrow>
             queries st' qa (StartName ts')
               = Some (FormatTime env (layoutOf ts') (fst (last (chunks ts'))))))"
proof -
  let ?st1 = "defaultMethod st req"
  let ?fc = "\<lparr>C = client, Method = Request.Method (requests ?st1 req),
                URL = uri\<lparr>RawQuery := overlay (queries st qa) (RawQuery uri)\<rparr>,
                RateLimiter = rl\<rparr>"
  have q1: "Query (requests ?st1 req) = Some qa" using q by (simp add: defaultMethod_frame)
  have j1: "JoinPath env (Config.URL cfg) (Endpoint (requests ?st1 req)) = Inr raw"
    using j by (simp add: defaultMethod_frame)
  have nf: "newFetchConfig env cfg ?st1 req client rl = Inr ?fc"
    using newFetchConfig_query[OF q1 j1 pu, of client rl] by (simp add: defaultMethod_frame)
  have ts1: "Timeseries (requests ?st1 req) = Some tsa" using ts by (simp add: defaultMethod_frame)
  have sc1: "setChunks (ParseTime env) (series ?st1 tsa) (FetchConfig.URL ?fc) = Some (None, ts')"
    using sc by (simp add: defaultMethod_frame)
  let ?st2 = "?st1\<lparr>series := (series ?st1)(tsa := ts')\<rparr>"
  have q2: "Query (requests ?st2 req) = Some qa" using q1 by simp
  have j2: "JoinPath env (Config.URL cfg) (Endpoint (requests ?st2 req)) = Inr raw" using j1 by simp
  let ?F = "chunkFlattened env ts' (queries st qa) client rl (requests ?st1 req) uri"
  let ?st3 = "if chunks ts' = [] then ?st2
              else ?st2\<lparr>queries := (queries ?st2)(qa := chunkQuery env ts' (queries st qa) (last (chunks ts')))\<rparr>"
  have cr: "chunkRequests env cfg req tsa client rl (chunks ts') ?st2 fl =
              (Returned None, ?st3, fl @ map ?F (chunks ts'))"
    using chunkRequests_closed[OF q2 j2 pu, of tsa client rl "chunks ts'" fl]
    by (simp add: defaultMethod_frame)
  have at: "addTable ?st3 req tables = addTable st req tables"
    by (simp add: addTable_def defaultMethod_frame)
  have pr: "planRequest env cfg client rl (Some req) st fl tables =
              (Returned None, ?st3, fl @ map ?F (chunks ts'), addTable st req tables)"
    unfolding planRequest_def using nf ts1 sc1 cr at by (simp add: Let_def)
  have a: "requests ?st3 = requests ?st1" by simp
  have b: "series ?st3 = (series st)(tsa := ts')" by (simp add: defaultMethod_frame)
  have c: "queries ?st3 =
        (if chunks ts' = [] then queries st
         else (queries st)(qa := chunkQuery env ts' (queries st qa) (last (chunks ts'))))"
    by (simp add: defaultMethod_frame)
  have d: "\<forall>c \<in> set (chunks ts').
          RawQuery (FetchConfig.URL (fetchConfig (?F c))) (EndName ts')
            = [FormatTime env (layoutOf ts') (snd c)]
        \<and> (StartName ts' \<noteq> EndName ts' \<longrightarrow>
             RawQuery (FetchConfig.URL (fetchConfig (?F c))) (StartName ts')
               = [FormatTime env (layoutOf ts') (fst c)])"
    by (simp add: chunkFlattened_def overlay_def chunkQuery_values)
  have e: "chunks ts' \<noteq> [] \<longrightarrow>
          queries ?st3 qa (EndName ts') = Some (FormatTime env (layoutOf ts') (snd (last (chunks ts'))))
        \<and> (StartName ts' \<noteq> EndName ts' \<longrightarrow>
             queries ?st3 qa (StartName ts')
               = Some (FormatTime env (layoutOf ts') (fst (last (chunks ts')))))"
    by (simp add: chunkQuery_values)
  show ?thesis
    by (rule exI[of _ ?st3]) (intro conjI pr a b c d e)
qed

lemma candles_setChunks:
  "setChunks (ParseTime demoEnv) (series demoStore 0)
     (candlesURL\<lparr>RawQuery := overlay (queries demoStore 0) (RawQuery candlesURL)\<rparr>)
   = Some (None, candlesChunked)"
  by (simp add: setChunks_def chunkLoop.simps Let_def demoEnv_def demoStore_def demoTimeseries_def
        candlesURL_def candlesChunked_def overlay_def layoutOf_def demoParse_def Second_def)

theorem planRequest_timeseries_witness:
  "queries demoStore 0 ''start'' = Some ''2024-01-01T00:00:00Z''
   \<and> queries (fst (snd (planRequest demoEnv candlesConfig None (newRateLimiter Second 10)
                         (Some 0) demoStore [] []))) 0 ''start'' = Some ''2024-01-01T00:02:00Z''
   \<and> queries (fst (snd (planRequest demoEnv candlesConfig None (newRateLimiter Second 10)
                         (Some 0) demoStore [] []))) 0 ''end'' = Some ''2024-01-01T00:03:00Z''
   \<and> queries (fst (snd (Upsert demoEnv candlesConfig demoStore))) 0 ''start''
        = Some ''2024-01-01T00:02:00Z''"
proof -
  let ?rl = "newRateLimiter Second 10"
  have ts: "Timeseries (requests demoStore 0) = Some 0"
    and q: "Query (requests demoStore 0) = Some 0"
    by (simp_all add: demoStore_def demoCandles_def)
  have j: "JoinPath demoEnv (Config.URL candlesConfig) (Endpoint (requests demoStore 0))
             = Inr ''https://api.test/candles''"
    by (simp add: demoEnv_def candlesConfig_def demoConfig_def demoStore_def demoCandles_def)
  have pu: "ParseURL demoEnv ''https://api.test/candles'' = Inr candlesURL"
    by (simp add: demoEnv_def candlesURL_def)
  have n: "StartName candlesChunked = ''start''" "EndName candlesChunked = ''end''"
    "chunks candlesChunked \<noteq> []" "StartName candlesChunked \<noteq> EndName candlesChunked"
    "last (chunks candlesChunked) = (1704067320 * Second, 1704067380 * Second)"
    "layoutOf candlesChunked = RFC3339"
    by (simp_all add: candlesChunked_def demoTimeseries_def layoutOf_def)
  have f: "FormatTime demoEnv RFC3339 (1704067320 * Second) = ''2024-01-01T00:02:00Z''"
    "FormatTime demoEnv RFC3339 (1704067380 * Second) = ''2024-01-01T00:03:00Z''"
    by (simp_all add: demoEnv_def demoFormat_def Second_def)
  from planRequest_timeseries[OF ts q j pu candles_setChunks,
      where client = None and rl = ?rl and fl = "[]" and tables = "[]"]
  obtain st' where
    pr: "fst (snd (planRequest demoEnv candlesConfig None ?rl (Some 0) demoStore [] [])) = st'"
    and e: "queries st' 0 (EndName candlesChunked)
              = Some (FormatTime demoEnv (layoutOf candlesChunked) (snd (last (chunks candlesChunked))))"
    and s: "queries st' 0 (StartName candlesChunked)
              = Some (FormatTime demoEnv (layoutOf candlesChunked) (fst (last (chunks candlesChunked))))"
    using n(3,4) by auto
  have a: "queries demoStore 0 ''start'' = Some ''2024-01-01T00:00:00Z''"
    by (simp add: demoStore_def)
  have u: "queries (fst (snd (Upsert demoEnv candlesConfig demoStore))) 0 ''start''
        = Some ''2024-01-01T00:02:00Z''"
    by code_simp
  from e s show ?thesis unfolding pr n using a u by (simp add: f)
qed

section \<open>Transactions: the three methods\<close>

lemma chanSend_closed: "isClosed c \<Longrightarrow> chanSend c v = Panic ''send on closed channel''"
  by (cases c) simp_all

lemma chanClose_closed: "isClosed c \<Longrightarrow> chanClose c = Inl ''close of closed channel''"
  by (cases c) simp_all

lemma chanClose_open: "isOpen c \<Longrightarrow> \<exists>c'. chanClose c = Inr c' \<and> isClosed c'"
  by (cases c) simp_all

lemma chanRecv_first:
  "b @ sq = s # rest \<Longrightarrow>
   \<exists>c'. chanRecv (Chan c n b sq tk p h) zero = Finished (s, c') \<and> buf c' @ sendq c' = rest"
  by (cases b; cases sq) auto

lemma awaitDone_frame: "ch (snd (awaitDone txn)) = ch txn \<and> commit (snd (awaitDone txn)) = commit txn"
  by (cases "chanRecv (doneCh txn) None") (auto simp: awaitDone_def split: prod.splits)

lemma awaitDone_first:
  assumes dn: "doneCh txn = Chan cd nd bd sqd tkd pd hdn" and f: "bd @ sqd = s # rest"
  shows "fst (awaitDone txn) = Finished s
       \<and> buf (doneCh (snd (awaitDone txn))) @ sendq (doneCh (snd (awaitDone txn))) = rest"
proof -
  from chanRecv_first[OF f, of cd nd tkd pd hdn None] obtain c'
    where c': "chanRecv (Chan cd nd bd sqd tkd pd hdn) None = Finished (s, c')"
      and r: "buf c' @ sendq c' = rest" by blast
  have "awaitDone txn = (Finished s, txn\<lparr>doneCh := c'\<rparr>)" by (simp add: awaitDone_def dn c')
  with r show ?thesis by simp
qed

lemma awaitDone_closed:
  assumes dn: "doneCh txn = Chan True nd [] [] tkd pd hdn"
  shows "fst (awaitDone txn) = Finished None \<and> doneCh (snd (awaitDone txn)) = doneCh txn"
  by (simp add: awaitDone_def dn)

lemma awaitDone_parks:
  assumes dn: "doneCh txn = Chan False nd [] [] tkd pd hdn"
  shows "fst (awaitDone txn) = ParkedInRecv pd
       \<and> doneCh (snd (awaitDone txn)) = Chan False nd [] [] tkd (Suc pd) hdn"
  by (simp add: awaitDone_def dn)

lemma finish_steps:
  assumes c: "ch txn = Chan False n b sq tk p h"
    and m: "commit txn = Chan False nc bc sqc tkc pc hc"
  shows "finish d txn =
     (if length hc < pc
      then awaitDone (txn\<lparr>ch := Chan True n b [] tk p (h @ replicate (p - length h) None),
                          commit := Chan False nc bc sqc tkc pc (hc @ [Some d])\<rparr>)
      else if length bc < nc
      then awaitDone (txn\<lparr>ch := Chan True n b [] tk p (h @ replicate (p - length h) None),
                          commit := Chan False nc (bc @ [d]) sqc tkc pc hc\<rparr>)
      else (ParkedInSend (tkc + length sqc),
            txn\<lparr>ch := Chan True n b [] tk p (h @ replicate (p - length h) None),
                commit := Chan False nc bc (sqc @ [d]) tkc pc hc\<rparr>))"
  by (simp add: finish_def pushDecision_def c m)

lemma finish_closes:
  assumes o: "isOpen (ch txn)"
  shows "isClosed (ch (snd (finish d txn)))"
proof -
  from chanClose_open[OF o] obtain c1 where c1: "chanClose (ch txn) = Inr c1" "isClosed c1"
    by blast
  let ?t1 = "txn\<lparr>ch := c1\<rparr>"
  have f: "finish d txn = pushDecision d ?t1" by (simp add: finish_def c1)
  have "ch (snd (pushDecision d ?t1)) = c1"
    using awaitDone_frame[of "?t1\<lparr>commit := c\<rparr>" for c]
    by (cases "chanSend (commit txn) d") (simp_all add: pushDecision_def)
  with f c1 show ?thesis by simp
qed

text \<open>
  Claim C7.  Take a transaction whose three channels are made, the submission channel
  and the commit channel open, and let \<open>r\<close> be the outcome of \<open>Commit\<close> (decision
  true) or of \<open>Rollback\<close> (decision false).

  \<^item> The submission channel is closed: its buffer is kept, the senders parked on it are
    released and the receivers parked on it are given the zero value.
  \<^item> The decision is on the commit channel behind everything sent there before: handed
    to the first parked receiver, else put into the buffer, else held by the method,
    which parks in the send, with the done channel untouched, and stays parked as long
    as nothing is taken from the commit channel.  Once the driver has taken the decision
    (shown where no other sender is parked), the method goes on and returns the status
    on the done channel.
  \<^item> Once the send is through, the method returns the first status on the done channel,
    whatever it is, and takes it from the channel.  With none there and the channel open
    it parks in the receive and stays parked as long as nothing is sent; the status that
    the driver then sends is what it returns (shown where no other receiver is parked).
    With none there and the channel closed it returns nil.

  \<open>Send\<close> hands the function to the first receiver parked on the submission channel,
  else puts it into the buffer, else parks with it; it changes no other field of the
  transaction.
\<close>

theorem Txn_methods:
  fixes txn :: "'f Txn"
  assumes c: "ch txn = Chan False n b sq tk p h"
    and m: "commit txn = Chan False nc bc sqc tkc pc hc"
    and dn: "doneCh txn = Chan cd nd bd sqd tkd pd hdn"
    and r: "r = (if d then Commit txn else Rollback txn)"
  shows "ch (snd r) = Chan True n b [] tk p (h @ replicate (p - length h) None)
     \<and> commit (snd r) =
         (if length hc < pc then Chan False nc bc sqc tkc pc (hc @ [Some d])
          else if length bc < nc then Chan False nc (bc @ [d]) sqc tkc pc hc
          else Chan False nc bc (sqc @ [d]) tkc pc hc)
     \<and> (\<not> length hc < pc \<and> \<not> length bc < nc \<longrightarrow>
          fst r = ParkedInSend (tkc + length sqc) \<and> doneCh (snd r) = doneCh txn
          \<and> afterSend (tkc + length sqc) (snd r) = (ParkedInSend (tkc + length sqc), snd r)
          \<and> (sqc = [] \<longrightarrow>
               chanRecv (commit (snd r)) False =
                 Finished (hd (bc @ [d]), Chan False nc (tl (bc @ [d])) [] (Suc tkc) pc hc)
               \<and> (\<forall>s rest. bd @ sqd = s # rest \<longrightarrow>
                     fst (afterSend tkc
                            ((snd r)\<lparr>commit := Chan False nc (tl (bc @ [d])) [] (Suc tkc) pc hc\<rparr>))
                       = Finished s)))
     \<and> (length hc < pc \<or> length bc < nc \<longrightarrow>
          (\<forall>s rest. bd @ sqd = s # rest \<longrightarrow>
              fst r = Finished s \<and> buf (doneCh (snd r)) @ sendq (doneCh (snd r)) = rest)
        \<and> (bd @ sqd = [] \<and> cd \<longrightarrow> fst r = Finished None \<and> doneCh (snd r) = doneCh txn)
        \<and> (bd @ sqd = [] \<and> \<not> cd \<longrightarrow>
              fst r = ParkedInRecv pd
              \<and> doneCh (snd r) = Chan False nd [] [] tkd (Suc pd) hdn
              \<and> (length hdn = pd \<longrightarrow> afterRecv pd (snd r) = (ParkedInRecv pd, snd r))
              \<and> (\<forall>s. length hdn = pd \<longrightarrow>
                    chanSend (doneCh (snd r)) s
                      = Finished (Chan False nd [] [] tkd (Suc pd) (hdn @ [Some s]))
                    \<and> fst (afterRecv pd
                             ((snd r)\<lparr>doneCh := Chan False nd [] [] tkd (Suc pd) (hdn @ [Some s])\<rparr>))
                        = Finished s)))
     \<and> (\<forall>fn. Send txn fn =
          (if length h < p then (Finished (), txn\<lparr>ch := Chan False n b sq tk p (h @ [Some fn])\<rparr>)
           else if length b < n then (Finished (), txn\<lparr>ch := Chan False n (b @ [fn]) sq tk p h\<rparr>)
           else (ParkedInSend (tk + length sq), txn\<lparr>ch := Chan False n b (sq @ [fn]) tk p h\<rparr>)))"
proof -
  let ?C = "Chan True n b [] tk p (h @ replicate (p - length h) None)"
  from r have rf: "r = finish d txn" by (cases d) (simp_all add: Commit_def Rollback_def)
  note fs = finish_steps[OF c m, of d, folded rf]
  have a: "ch (snd r) = ?C"
    unfolding fs using awaitDone_frame[of "txn\<lparr>ch := ?C, commit := x\<rparr>" for x] by simp
  have b: "commit (snd r) =
         (if length hc < pc then Chan False nc bc sqc tkc pc (hc @ [Some d])
          else if length bc < nc then Chan False nc (bc @ [d]) sqc tkc pc hc
          else Chan False nc bc (sqc @ [d]) tkc pc hc)"
    unfolding fs using awaitDone_frame[of "txn\<lparr>ch := ?C, commit := x\<rparr>" for x] by simp
  have p: "\<not> length hc < pc \<and> \<not> length bc < nc \<longrightarrow>
          fst r = ParkedInSend (tkc + length sqc) \<and> doneCh (snd r) = doneCh txn
          \<and> afterSend (tkc + length sqc) (snd r) = (ParkedInSend (tkc + length sqc), snd r)
          \<and> (sqc = [] \<longrightarrow>
               chanRecv (commit (snd r)) False =
                 Finished (hd (bc @ [d]), Chan False nc (tl (bc @ [d])) [] (Suc tkc) pc hc)
               \<and> (\<forall>s rest. bd @ sqd = s # rest \<longrightarrow>
                     fst (afterSend tkc
                            ((snd r)\<lparr>commit := Chan False nc (tl (bc @ [d])) [] (Suc tkc) pc hc\<rparr>))
                       = Finished s))"
  proof (intro impI conjI allI)
    assume k: "\<not> length hc < pc \<and> \<not> length bc < nc"
    then have rp: "r = (ParkedInSend (tkc + length sqc),
            txn\<lparr>ch := ?C, commit := Chan False nc bc (sqc @ [d]) tkc pc hc\<rparr>)"
      unfolding fs by simp
    show "fst r = ParkedInSend (tkc + length sqc)" by (simp add: rp)
    show "doneCh (snd r) = doneCh txn" by (simp add: rp)
    show "afterSend (tkc + length sqc) (snd r) = (ParkedInSend (tkc + length sqc), snd r)"
      by (simp add: rp afterSend_def)
    assume e: "sqc = []"
    show "chanRecv (commit (snd r)) False =
                 Finished (hd (bc @ [d]), Chan False nc (tl (bc @ [d])) [] (Suc tkc) pc hc)"
      by (cases bc) (simp_all add: rp e)
    fix s rest assume f: "bd @ sqd = s # rest"
    let ?t = "(snd r)\<lparr>commit := Chan False nc (tl (bc @ [d])) [] (Suc tkc) pc hc\<rparr>"
    have d': "doneCh ?t = Chan cd nd bd sqd tkd pd hdn" by (simp add: rp dn)
    have "afterSend tkc ?t = awaitDone ?t" by (simp add: afterSend_def)
    with awaitDone_first[OF d' f] show "fst (afterSend tkc ?t) = Finished s" by simp
  qed
  have q: "length hc < pc \<or> length bc < nc \<longrightarrow>
          (\<forall>s rest. bd @ sqd = s # rest \<longrightarrow>
              fst r = Finished s \<and> buf (doneCh (snd r)) @ sendq (doneCh (snd r)) = rest)
        \<and> (bd @ sqd = [] \<and> cd \<longrightarrow> fst r = Finished None \<and> doneCh (snd r) = doneCh txn)
        \<and> (bd @ sqd = [] \<and> \<not> cd \<longrightarrow>
              fst r = ParkedInRecv pd
              \<and> doneCh (snd r) = Chan False nd [] [] tkd (Suc pd) hdn
              \<and> (length hdn = pd \<longrightarrow> afterRecv pd (snd r) = (ParkedInRecv pd, snd r))
              \<and> (\<forall>s. length hdn = pd \<longrightarrow>
                    chanSend (doneCh (snd r)) s
                      = Finished (Chan False nd [] [] tkd (Suc pd) (hdn @ [Some s]))
                    \<and> fst (afterRecv pd
                             ((snd r)\<lparr>doneCh := Chan False nd [] [] tkd (Suc pd) (hdn @ [Some s])\<rparr>))
                        = Finished s))"
  proof
    assume k: "length hc < pc \<or> length bc < nc"
    define x where "x = (if length hc < pc then Chan False nc bc sqc tkc pc (hc @ [Some d])
                         else Chan False nc (bc @ [d]) sqc tkc pc hc)"
    have rx: "r = awaitDone (txn\<lparr>ch := ?C, commit := x\<rparr>)"
      using k fs by (auto simp: x_def)
    let ?t = "txn\<lparr>ch := ?C, commit := x\<rparr>"
    have d': "doneCh ?t = Chan cd nd bd sqd tkd pd hdn" by (simp add: dn)
    have q1: "\<forall>s rest. bd @ sqd = s # rest \<longrightarrow>
              fst r = Finished s \<and> buf (doneCh (snd r)) @ sendq (doneCh (snd r)) = rest"
      unfolding rx using awaitDone_first[OF d'] by blast
    have q2: "bd @ sqd = [] \<and> cd \<longrightarrow> fst r = Finished None \<and> doneCh (snd r) = doneCh txn"
    proof
      assume "bd @ sqd = [] \<and> cd"
      then have "doneCh ?t = Chan True nd [] [] tkd pd hdn" using d' by simp
      from awaitDone_closed[OF this] show "fst r = Finished None \<and> doneCh (snd r) = doneCh txn"
        unfolding rx by simp
    qed
    have q3: "bd @ sqd = [] \<and> \<not> cd \<longrightarrow>
              fst r = ParkedInRecv pd
              \<and> doneCh (snd r) = Chan False nd [] [] tkd (Suc pd) hdn
              \<and> (length hdn = pd \<longrightarrow> afterRecv pd (snd r) = (ParkedInRecv pd, snd r))
              \<and> (\<forall>s. length hdn = pd \<longrightarrow>
                    chanSend (doneCh (snd r)) s
                      = Finished (Chan False nd [] [] tkd (Suc pd) (hdn @ [Some s]))
                    \<and> fst (afterRecv pd
                             ((snd r)\<lparr>doneCh := Chan False nd [] [] tkd (Suc pd) (hdn @ [Some s])\<rparr>))
                        = Finished s)"
    proof
      assume "bd @ sqd = [] \<and> \<not> cd"
      then have "doneCh ?t = Chan False nd [] [] tkd pd hdn" using d' by simp
      from awaitDone_parks[OF this]
      have w: "fst r = ParkedInRecv pd" "doneCh (snd r) = Chan False nd [] [] tkd (Suc pd) hdn"
        unfolding rx by simp_all
      show "fst r = ParkedInRecv pd
              \<and> doneCh (snd r) = Chan False nd [] [] tkd (Suc pd) hdn
              \<and> (length hdn = pd \<longrightarrow> afterRecv pd (snd r) = (ParkedInRecv pd, snd r))
              \<and> (\<forall>s. length hdn = pd \<longrightarrow>
                    chanSend (doneCh (snd r)) s
                      = Finished (Chan False nd [] [] tkd (Suc pd) (hdn @ [Some s]))
                    \<and> fst (afterRecv pd
                             ((snd r)\<lparr>doneCh := Chan False nd [] [] tkd (Suc pd) (hdn @ [Some s])\<rparr>))
                        = Finished s)"
        using w by (simp add: afterRecv_def nth_append)
    qed
    from q1 q2 q3 show "(\<forall>s rest. bd @ sqd = s # rest \<longrightarrow>
              fst r = Finished s \<and> buf (doneCh (snd r)) @ sendq (doneCh (snd r)) = rest)
        \<and> (bd @ sqd = [] \<and> cd \<longrightarrow> fst r = Finished None \<and> doneCh (snd r) = doneCh txn)
        \<and> (bd @ sqd = [] \<and> \<not> cd \<longrightarrow>
              fst r = ParkedInRecv pd
              \<and> doneCh (snd r) = Chan False nd [] [] tkd (Suc pd) hdn
              \<and> (length hdn = pd \<longrightarrow> afterRecv pd (snd r) = (ParkedInRecv pd, snd r))
              \<and> (\<forall>s. length hdn = pd \<longrightarrow>
                    chanSend (doneCh (snd r)) s
                      = Finished (Chan False nd [] [] tkd (Suc pd) (hdn @ [Some s]))
                    \<and> fst (afterRecv pd
                             ((snd r)\<lparr>doneCh := Chan False nd [] [] tkd (Suc pd) (hdn @ [Some s])\<rparr>))
                        = Finished s))"
      by (intro conjI)
  qed
  have s: "\<forall>fn. Send txn fn =
          (if length h < p then (Finished (), txn\<lparr>ch := Chan False n b sq tk p (h @ [Some fn])\<rparr>)
           else if length b < n then (Finished (), txn\<lparr>ch := Chan False n (b @ [fn]) sq tk p h\<rparr>)
           else (ParkedInSend (tk + length sq), txn\<lparr>ch := Chan False n b (sq @ [fn]) tk p h\<rparr>))"
    by (simp add: Send_def c)
  from a b p q s show ?thesis by (intro conjI)
qed

theorem Txn_methods_witness:
  "fst (Commit failedTxn) = Finished (Some (External ''driver failed''))
   \<and> snd (Commit failedTxn) =
       \<lparr>ch = Chan True 0 [] [] 0 1 [None],
        doneCh = Chan False 1 [] [] 0 0 [],
        commit = Chan False 1 [True] [] 0 0 []\<rparr>
   \<and> Rollback workingTxn =
       (ParkedInRecv 0,
        \<lparr>ch = Chan True 0 [] [] 0 1 [None],
         doneCh = Chan False 1 [] [] 0 1 [],
         commit = Chan False 1 [False] [] 0 0 []\<rparr>)
   \<and> chanSend (doneCh (snd (Rollback workingTxn))) (Some (External ''rolled back late''))
       = Finished (Chan False 1 [] [] 0 1 [Some (Some (External ''rolled back late''))])
   \<and> fst (afterRecv 0 ((snd (Rollback workingTxn))
            \<lparr>doneCh := Chan False 1 [] [] 0 1 [Some (Some (External ''rolled back late''))]\<rparr>))
       = Finished (Some (External ''rolled back late''))
   \<and> Commit busyTxn =
       (ParkedInSend 0,
        \<lparr>ch = Chan True 0 [] [] 0 1 [None],
         doneCh = Chan False 1 [Some (External ''driver failed'')] [] 0 0 [],
         commit = Chan False 0 [] [True] 0 0 []\<rparr>)
   \<and> chanRecv (commit (snd (Commit busyTxn))) False = Finished (True, Chan False 0 [] [] 1 0 [])
   \<and> fst (afterSend 0 ((snd (Commit busyTxn))\<lparr>commit := Chan False 0 [] [] 1 0 []\<rparr>))
       = Finished (Some (External ''driver failed''))
   \<and> Send reportedTxn 7 = (Finished (), reportedTxn\<lparr>ch := Chan False 0 [] [] 0 1 [Some 7]\<rparr>)"
proof -
  have c: "ch failedTxn = Chan False 0 [] [] 0 1 []"
    "ch workingTxn = Chan False 0 [] [] 0 1 []" "ch busyTxn = Chan False 0 [] [] 0 1 []"
    by (simp_all add: failedTxn_def workingTxn_def busyTxn_def reportedTxn_def)
  have m: "commit failedTxn = Chan False 1 [] [] 0 0 []"
    "commit workingTxn = Chan False 1 [] [] 0 0 []" "commit busyTxn = Chan False 0 [] [] 0 0 []"
    by (simp_all add: failedTxn_def workingTxn_def busyTxn_def reportedTxn_def)
  have dn: "doneCh failedTxn = Chan False 1 [Some (External ''driver failed'')] [] 0 0 []"
    "doneCh workingTxn = Chan False 1 [] [] 0 0 []"
    "doneCh busyTxn = Chan False 1 [Some (External ''driver failed'')] [] 0 0 []"
    by (simp_all add: failedTxn_def workingTxn_def busyTxn_def reportedTxn_def)
  have r: "Commit failedTxn = (if True then Commit failedTxn else Rollback failedTxn)"
    "Rollback workingTxn = (if False then Commit workingTxn else Rollback workingTxn)"
    "Commit busyTxn = (if True then Commit busyTxn else Rollback busyTxn)"
    by simp_all
  note f = Txn_methods[OF c(1) m(1) dn(1) r(1)]
  note w = Txn_methods[OF c(2) m(2) dn(2) r(2)]
  note b = Txn_methods[OF c(3) m(3) dn(3) r(3)]
  have e: "\<And>(t :: nat Txn) t'. ch t = ch t' \<Longrightarrow> doneCh t = doneCh t' \<Longrightarrow> commit t = commit t'
              \<Longrightarrow> t = t'"
    by simp
  have f1: "fst (Commit failedTxn) = Finished (Some (External ''driver failed''))"
    using f by simp
  have f2: "snd (Commit failedTxn) =
       \<lparr>ch = Chan True 0 [] [] 0 1 [None],
        doneCh = Chan False 1 [] [] 0 0 [],
        commit = Chan False 1 [True] [] 0 0 []\<rparr>"
  proof (rule e)
    show "ch (snd (Commit failedTxn)) = ch \<lparr>ch = Chan True 0 [] [] 0 1 [None],
        doneCh = Chan False 1 [] [] 0 0 [], commit = Chan False 1 [True] [] 0 0 []\<rparr>"
      using f by simp
    show "commit (snd (Commit failedTxn)) = commit \<lparr>ch = Chan True 0 [] [] 0 1 [None],
        doneCh = Chan False 1 [] [] 0 0 [], commit = Chan False 1 [True] [] 0 0 []\<rparr>"
      using f by simp
    show "doneCh (snd (Commit failedTxn)) = doneCh \<lparr>ch = Chan True 0 [] [] 0 1 [None],
        doneCh = Chan False 1 [] [] 0 0 [], commit = Chan False 1 [True] [] 0 0 []\<rparr>"
      by (simp add: Commit_def finish_def pushDecision_def awaitDone_def failedTxn_def
          reportedTxn_def)
  qed
  have w1: "fst (Rollback workingTxn) = ParkedInRecv 0" using w by simp
  have w2: "snd (Rollback workingTxn) =
        \<lparr>ch = Chan True 0 [] [] 0 1 [None],
         doneCh = Chan False 1 [] [] 0 1 [],
         commit = Chan False 1 [False] [] 0 0 []\<rparr>"
    using w by (intro e) simp_all
  have w3: "chanSend (doneCh (snd (Rollback workingTxn))) (Some (External ''rolled back late''))
       = Finished (Chan False 1 [] [] 0 1 [Some (Some (External ''rolled back late''))])"
    using w by simp
  have w4: "fst (afterRecv 0 ((snd (Rollback workingTxn))
            \<lparr>doneCh := Chan False 1 [] [] 0 1 [Some (Some (External ''rolled back late''))]\<rparr>))
       = Finished (Some (External ''rolled back late''))"
    using w by simp
  have b1: "fst (Commit busyTxn) = ParkedInSend 0" using b by simp
  have b2: "snd (Commit busyTxn) =
        \<lparr>ch = Chan True 0 [] [] 0 1 [None],
         doneCh = Chan False 1 [Some (External ''driver failed'')] [] 0 0 [],
         commit = Chan False 0 [] [True] 0 0 []\<rparr>"
    using b dn(3) by (intro e) simp_all
  have b3: "chanRecv (commit (snd (Commit busyTxn))) False
              = Finished (True, Chan False 0 [] [] 1 0 [])"
    using b by simp
  have b4: "fst (afterSend 0 ((snd (Commit busyTxn))\<lparr>commit := Chan False 0 [] [] 1 0 []\<rparr>))
       = Finished (Some (External ''driver failed''))"
    using b by simp
  have "ch reportedTxn = Chan False 0 [] [] 0 1 []"
    "commit reportedTxn = Chan False 1 [] [] 0 0 []"
    "doneCh reportedTxn = Chan False 1 [None] [] 0 0 []"
    "Commit reportedTxn = (if True then Commit reportedTxn else Rollback reportedTxn)"
    by (simp_all add: reportedTxn_def)
  note rp = Txn_methods[OF this]
  have s: "Send reportedTxn 7 = (Finished (), reportedTxn\<lparr>ch := Chan False 0 [] [] 0 1 [Some 7]\<rparr>)"
    using rp by simp
  from f1 f2 w1 w2 w3 w4 b1 b2 b3 b4 s show ?thesis by (simp add: prod_eq_iff)
qed

text \<open>
  Claim C10.  \<open>Commit\<close> and \<open>Rollback\<close> on a transaction whose submission channel is
  open leave that channel closed.  In every later state of the transaction, where the
  channel is closed, \<open>Send\<close> panics with a send on a closed channel and \<open>Commit\<close>
  and \<open>Rollback\<close> panic with a close of a closed channel; none of them returns, so
  none returns an error, and the transaction is left as it was.
\<close>

theorem Txn_after_finish:
  fixes txn :: "'f Txn"
  assumes o: "isOpen (ch txn)"
  shows "isClosed (ch (snd (Commit txn))) \<and> isClosed (ch (snd (Rollback txn)))
       \<and> (\<forall>(later :: 'f Txn) fn. isClosed (ch later) \<longrightarrow>
             Send later fn = (Panic ''send on closed channel'', later)
           \<and> Commit later = (Panic ''close of closed channel'', later)
           \<and> Rollback later = (Panic ''close of closed channel'', later))"
proof (intro conjI allI impI)
  show "isClosed (ch (snd (Commit txn)))"
    using finish_closes[OF o, of True] by (simp add: Commit_def)
  show "isClosed (ch (snd (Rollback txn)))"
    using finish_closes[OF o, of False] by (simp add: Rollback_def)
next
  fix later :: "'f Txn" and fn
  assume c: "isClosed (ch later)"
  show "Send later fn = (Panic ''send on closed channel'', later)"
    by (simp add: Send_def chanSend_closed[OF c])
  show "Commit later = (Panic ''close of closed channel'', later)"
    by (simp add: Commit_def finish_def chanClose_closed[OF c])
  show "Rollback later = (Panic ''close of closed channel'', later)"
    by (simp add: Rollback_def finish_def chanClose_closed[OF c])
qed

theorem Txn_after_finish_witness:
  "fst (Send (snd (Commit reportedTxn)) 7) = Panic ''send on closed channel''
   \<and> fst (Commit (snd (Commit reportedTxn))) = Panic ''close of closed channel''
   \<and> fst (Rollback (snd (Commit reportedTxn))) = Panic ''close of closed channel''
   \<and> fst (Commit (snd (Rollback workingTxn))) = Panic ''close of closed channel''"
proof -
  have h: "isOpen (ch reportedTxn)" by (simp add: reportedTxn_def)
  have hw: "isOpen (ch workingTxn)" by (simp add: workingTxn_def reportedTxn_def)
  note a = Txn_after_finish[OF h]
  note b = Txn_after_finish[OF hw]
  from a have c1: "isClosed (ch (snd (Commit reportedTxn)))" by blast
  from b have c2: "isClosed (ch (snd (Rollback workingTxn)))" by blast
  from a c1 have "Send (snd (Commit reportedTxn)) 7 = (Panic ''send on closed channel'', snd (Commit reportedTxn))"
    "Commit (snd (Commit reportedTxn)) = (Panic ''close of closed channel'', snd (Commit reportedTxn))"
    "Rollback (snd (Commit reportedTxn)) = (Panic ''close of closed channel'', snd (Commit reportedTxn))"
    by blast+
  moreover from a c2 have "Commit (snd (Rollback workingTxn)) = (Panic ''close of closed channel'', snd (Rollback workingTxn))"
    by blast
  ultimately show ?thesis by simp
qed

end
